theory Spec2Isabelle
  imports Complex_Main
begin

section \<open>DIIS-accelerated SCF iterations of the Psi4NumPy tutorial\<close>

text \<open>
  The program is the notebook cell \<^verbatim>\<open>==> SCF Iterations w/ DIIS <==\<close>: one
  \<^verbatim>\<open>for scf_iter in xrange(1, MAXITER + 1)\<close> loop over the global lists
  \<^verbatim>\<open>F_list\<close> and \<^verbatim>\<open>DIIS_RESID\<close>. Floating-point numbers are modelled
  as exact reals; rounding is outside this development.
\<close>

subsection \<open>Exceptions\<close>

text \<open>
  \<^verbatim>\<open>LinAlgError\<close> is raised by \<^verbatim>\<open>np.linalg.solve\<close> and
  \<^verbatim>\<open>np.linalg.eigh\<close>, \<^verbatim>\<open>ValueError\<close> by NumPy on operands whose shapes do
  not fit, \<^verbatim>\<open>IndexError\<close> by an index out of range, and \<open>MaxIterExceeded\<close> is
  the \<^verbatim>\<open>Exception("Maximum number of SCF iterations exceeded.")\<close> of the loop.
\<close>

datatype error = LinAlgError | ValueError | IndexError | MaxIterExceeded

definition ebind :: "error + 'a \<Rightarrow> ('a \<Rightarrow> error + 'b) \<Rightarrow> error + 'b" where
  "ebind m f = (case m of Inl e \<Rightarrow> Inl e | Inr x \<Rightarrow> f x)"

subsection \<open>Arrays\<close>

text \<open>
  A two-dimensional NumPy array: its shape and its entries in row-major order. The
  trial vectors (Fock matrices) and the residuals are such arrays; every one the loop
  builds has the shape of the overlap matrix \<^verbatim>\<open>S\<close>.
\<close>

record ndarray =
  shape :: "nat \<times> nat"
  data :: "real list"

definition wf_array :: "ndarray \<Rightarrow> bool" where
  "wf_array a \<longleftrightarrow> length (data a) = fst (shape a) * snd (shape a)"

definition dot :: "real list \<Rightarrow> real list \<Rightarrow> real" where
  "dot xs ys = sum_list (map2 (*) xs ys)"

text \<open>
  \<^verbatim>\<open>np.einsum('ij,ij->', a, b)\<close>: the sum of the products of corresponding
  entries. The model covers operands of one shape and answers \<^verbatim>\<open>ValueError\<close>
  otherwise (NumPy's treatment of unit dimensions is not modelled; the theorems below
  that build \<^verbatim>\<open>B\<close> are about residuals of one shape).
\<close>

definition einsum_ij_ij :: "ndarray \<Rightarrow> ndarray \<Rightarrow> error + real" where
  "einsum_ij_ij a b =
     (if shape a = shape b then Inr (dot (data a) (data b)) else Inl ValueError)"

text \<open>
  \<^verbatim>\<open>np.zeros_like(F)\<close>, \<^verbatim>\<open>c * T\<close> and \<^verbatim>\<open>F += X\<close>; the last, like
  \<^verbatim>\<open>einsum\<close>, is modelled for operands of one shape.
\<close>

definition zeros_like :: "ndarray \<Rightarrow> ndarray" where
  "zeros_like F = F\<lparr>data := map (\<lambda>_. 0) (data F)\<rparr>"

definition scale :: "real \<Rightarrow> ndarray \<Rightarrow> ndarray" where
  "scale c T = T\<lparr>data := map (\<lambda>v. c * v) (data T)\<rparr>"

definition iadd :: "ndarray \<Rightarrow> ndarray \<Rightarrow> error + ndarray" where
  "iadd F X =
     (if shape X = shape F then Inr (F\<lparr>data := map2 (+) (data F) (data X)\<rparr>)
      else Inl ValueError)"

text \<open>\<^verbatim>\<open>xs[i]\<close> for an index produced by \<^verbatim>\<open>xrange\<close> (never negative).\<close>

definition getitem :: "'a list \<Rightarrow> nat \<Rightarrow> error + 'a" where
  "getitem xs i = (if i < length xs then Inr (xs ! i) else Inl IndexError)"

subsection \<open>The matrix of the Pulay equation\<close>

type_synonym matrix = "real list list"

text \<open>
  \<^verbatim>\<open>np.empty((n, n))\<close> returns uninitialised memory: the entries are whatever
  \<open>g\<close> says.
\<close>

definition np_empty :: "(nat \<Rightarrow> nat \<Rightarrow> real) \<Rightarrow> nat \<Rightarrow> matrix" where
  "np_empty g n = map (\<lambda>i. map (\<lambda>j. g i j) [0..<n]) [0..<n]"

text \<open>\<^verbatim>\<open>B[-1, :] = v\<close>, \<^verbatim>\<open>B[:, -1] = v\<close> and \<^verbatim>\<open>B[-1, -1] = v\<close>.\<close>

definition set_last_row :: "real \<Rightarrow> matrix \<Rightarrow> matrix" where
  "set_last_row v B = B[length B - 1 := map (\<lambda>_. v) (B ! (length B - 1))]"

definition set_last_col :: "real \<Rightarrow> matrix \<Rightarrow> matrix" where
  "set_last_col v B = map (\<lambda>row. row[length row - 1 := v]) B"

definition set_corner :: "real \<Rightarrow> matrix \<Rightarrow> matrix" where
  "set_corner v B =
     B[length B - 1 := (B ! (length B - 1))[length (B ! (length B - 1)) - 1 := v]]"

text \<open>\<^verbatim>\<open>B[i, j] = v\<close> for indices produced by \<^verbatim>\<open>xrange\<close>.\<close>

definition setitem2 :: "matrix \<Rightarrow> nat \<Rightarrow> nat \<Rightarrow> real \<Rightarrow> error + matrix" where
  "setitem2 B i j v =
     (if i < length B \<and> j < length (B ! i) then Inr (B[i := (B ! i)[j := v]])
      else Inl IndexError)"

text \<open>
  The inner loop \<^verbatim>\<open>for j in xrange(len(F_list))\<close> with its body
  \<^verbatim>\<open>B[i, j] = np.einsum('ij,ij->', DIIS_RESID[i], DIIS_RESID[j])\<close>, and the outer
  loop \<^verbatim>\<open>for i in xrange(len(F_list))\<close>.
\<close>

fun fill_row :: "ndarray list \<Rightarrow> nat \<Rightarrow> nat list \<Rightarrow> matrix \<Rightarrow> error + matrix" where
  "fill_row R i [] B = Inr B"
| "fill_row R i (j # js) B =
     ebind (getitem R i) (\<lambda>ri.
     ebind (getitem R j) (\<lambda>rj.
     ebind (einsum_ij_ij ri rj) (\<lambda>v.
     ebind (setitem2 B i j v) (fill_row R i js))))"

fun fill_B :: "ndarray list \<Rightarrow> nat list \<Rightarrow> nat list \<Rightarrow> matrix \<Rightarrow> error + matrix" where
  "fill_B R [] js B = Inr B"
| "fill_B R (i # is) js B = ebind (fill_row R i js B) (fill_B R is js)"

text \<open>The block \<^verbatim>\<open># Build B matrix\<close>.\<close>

definition build_B :: "(nat \<Rightarrow> nat \<Rightarrow> real) \<Rightarrow> ndarray list \<Rightarrow> ndarray list \<Rightarrow> error + matrix" where
  "build_B g F_list DIIS_RESID =
     (let B_dim = length F_list + 1;
          B0 = np_empty g B_dim;
          B1 = set_last_row (- 1) B0;
          B2 = set_last_col (- 1) B1;
          B3 = set_corner 0 B2
      in fill_B DIIS_RESID [0..<length F_list] [0..<length F_list] B3)"

text \<open>The block \<^verbatim>\<open># Build RHS of Pulay equation\<close>.\<close>

definition build_rhs :: "ndarray list \<Rightarrow> real list" where
  "build_rhs F_list =
     (let B_dim = length F_list + 1;
          rhs = replicate B_dim 0
      in rhs[B_dim - 1 := - 1])"

subsection \<open>Solving the Pulay equation and building the DIIS Fock matrix\<close>

text \<open>
  \<^verbatim>\<open>np.linalg.solve\<close> belongs to NumPy, not to this repository: it is a
  parameter of the model.
\<close>

type_synonym solver = "matrix \<Rightarrow> real list \<Rightarrow> error + real list"

definition pulay_solve :: "solver \<Rightarrow> (nat \<Rightarrow> nat \<Rightarrow> real) \<Rightarrow> ndarray list \<Rightarrow> ndarray list \<Rightarrow> error + real list" where
  "pulay_solve slv g F_list DIIS_RESID =
     ebind (build_B g F_list DIIS_RESID) (\<lambda>B. slv B (build_rhs F_list))"

text \<open>
  The loop \<^verbatim>\<open>for x in xrange(coeff.shape[0] - 1): F += coeff[x] * F_list[x]\<close>.
\<close>

fun diis_accumulate :: "real list \<Rightarrow> ndarray list \<Rightarrow> nat list \<Rightarrow> ndarray \<Rightarrow> error + ndarray" where
  "diis_accumulate coeff F_list [] F = Inr F"
| "diis_accumulate coeff F_list (x # xs) F =
     ebind (getitem coeff x) (\<lambda>c.
     ebind (getitem F_list x) (\<lambda>T.
     ebind (iadd F (scale c T)) (diis_accumulate coeff F_list xs)))"

definition diis_fock :: "ndarray \<Rightarrow> real list \<Rightarrow> ndarray list \<Rightarrow> error + ndarray" where
  "diis_fock F coeff F_list =
     diis_accumulate coeff F_list [0..<length coeff - 1] (zeros_like F)"

text \<open>The body of \<^verbatim>\<open>if scf_iter >= 2:\<close>, and the statement itself.\<close>

definition diis_solve_path :: "solver \<Rightarrow> (nat \<Rightarrow> nat \<Rightarrow> real) \<Rightarrow> ndarray \<Rightarrow> ndarray list \<Rightarrow> ndarray list \<Rightarrow> error + ndarray" where
  "diis_solve_path slv g F F_list DIIS_RESID =
     ebind (pulay_solve slv g F_list DIIS_RESID) (\<lambda>coeff. diis_fock F coeff F_list)"

definition diis_extrapolate :: "solver \<Rightarrow> (nat \<Rightarrow> nat \<Rightarrow> real) \<Rightarrow> nat \<Rightarrow> ndarray \<Rightarrow> ndarray list \<Rightarrow> ndarray list \<Rightarrow> error + ndarray" where
  "diis_extrapolate slv g scf_iter F F_list DIIS_RESID =
     (if 2 \<le> scf_iter then diis_solve_path slv g F F_list DIIS_RESID else Inr F)"

subsection \<open>The SCF loop\<close>

definition MAXITER :: nat where
  "MAXITER = 40"

definition E_conv :: real where
  "E_conv = 1 / 10 ^ 6"

definition D_conv :: real where
  "D_conv = 1 / 10 ^ 3"

text \<open>
  What the loop takes from Psi4 and NumPy. The integrals \<^verbatim>\<open>H\<close>, \<^verbatim>\<open>I\<close>,
  \<^verbatim>\<open>S\<close>, \<^verbatim>\<open>A\<close> and \<^verbatim>\<open>E_nuc\<close> come from Psi4 and are fixed during the
  loop, so the tensor algebra on them is a function of the density and the Fock matrix:
  \<open>fock\<close> is \<^verbatim>\<open>H + 2*J - K\<close> with \<^verbatim>\<open>J\<close> and \<^verbatim>\<open>K\<close> contracted from
  \<^verbatim>\<open>I\<close> and \<^verbatim>\<open>D\<close>; \<open>resid\<close> is \<^verbatim>\<open>A.dot(F.dot(D).dot(S) - S.dot(D).dot(F)).dot(A)\<close>;
  \<open>energy\<close> is \<^verbatim>\<open>np.einsum('pq,pq->', (H + F), D) + E_nuc\<close>; \<open>new_density\<close> is the
  block \<^verbatim>\<open># Compute new orbital guess with DIIS Fock matrix\<close>, whose
  \<^verbatim>\<open>np.linalg.eigh\<close> may raise. \<open>solve\<close> is \<^verbatim>\<open>np.linalg.solve\<close> and \<open>uninit\<close>
  the contents of the memory that \<^verbatim>\<open>np.empty\<close> returns.
\<close>

record scf_env =
  fock :: "ndarray \<Rightarrow> ndarray"
  resid :: "ndarray \<Rightarrow> ndarray \<Rightarrow> ndarray"
  energy :: "ndarray \<Rightarrow> ndarray \<Rightarrow> real"
  new_density :: "ndarray \<Rightarrow> error + ndarray"
  solve :: solver
  uninit :: "nat \<Rightarrow> nat \<Rightarrow> real"

record scf_state =
  D :: ndarray
  SCF_E :: real
  E_old :: real
  F_list :: "ndarray list"
  DIIS_RESID :: "ndarray list"

text \<open>
  \<^verbatim>\<open>np.mean(diis_r**2)**0.5\<close>; the mean of an empty array is \<^verbatim>\<open>nan\<close>
  (\<open>None\<close>), and every comparison with \<^verbatim>\<open>nan\<close> is false.
\<close>

definition rms :: "ndarray \<Rightarrow> real option" where
  "rms r =
     (if data r = [] then None
      else Some (sqrt (sum_list (map (\<lambda>v. v ^ 2) (data r)) / real (length (data r)))))"

definition converged :: "real \<Rightarrow> real option \<Rightarrow> bool" where
  "converged dE dRMS \<longleftrightarrow>
     \<bar>dE\<bar> < E_conv \<and> (case dRMS of None \<Rightarrow> False | Some d \<Rightarrow> d < D_conv)"

text \<open>The two \<^verbatim>\<open>append\<close> statements.\<close>

definition append_pair :: "scf_state \<Rightarrow> ndarray \<Rightarrow> ndarray \<Rightarrow> scf_state" where
  "append_pair st F diis_r =
     st\<lparr>F_list := F_list st @ [F], DIIS_RESID := DIIS_RESID st @ [diis_r]\<rparr>"

datatype flow = Break | Continue

text \<open>One pass through the body of the \<^verbatim>\<open>for\<close> loop.\<close>

definition scf_body :: "scf_env \<Rightarrow> nat \<Rightarrow> scf_state \<Rightarrow> error + flow \<times> scf_state" where
  "scf_body env scf_iter st =
     (let F = fock env (D st);
          diis_r = resid env F (D st);
          st1 = append_pair st F diis_r;
          st2 = st1\<lparr>SCF_E := energy env F (D st)\<rparr>;
          dE = SCF_E st2 - E_old st2;
          dRMS = rms diis_r
      in if converged dE dRMS then Inr (Break, st2)
         else
           let st3 = st2\<lparr>E_old := SCF_E st2\<rparr> in
           ebind (diis_extrapolate (solve env) (uninit env) scf_iter F
                    (F_list st3) (DIIS_RESID st3)) (\<lambda>F'.
           ebind (new_density env F') (\<lambda>D'.
           if scf_iter = MAXITER then Inl MaxIterExceeded
           else Inr (Continue, st3\<lparr>D := D'\<rparr>))))"

text \<open>
  The \<^verbatim>\<open>for\<close> loop over a list of iteration numbers. \<open>Broke k\<close>: the loop was
  left by \<^verbatim>\<open>break\<close> with \<^verbatim>\<open>scf_iter = k\<close>; \<open>Exhausted\<close>: the list ran out.
\<close>

datatype loop_exit = Broke nat | Exhausted

fun scf_for :: "scf_env \<Rightarrow> nat list \<Rightarrow> scf_state \<Rightarrow> error + loop_exit \<times> scf_state" where
  "scf_for env [] st = Inr (Exhausted, st)"
| "scf_for env (scf_iter # rest) st =
     (case scf_body env scf_iter st of
        Inl e \<Rightarrow> Inl e
      | Inr (Break, st') \<Rightarrow> Inr (Broke scf_iter, st')
      | Inr (Continue, st') \<Rightarrow> scf_for env rest st')"

definition scf_loop :: "scf_env \<Rightarrow> scf_state \<Rightarrow> error + loop_exit \<times> scf_state" where
  "scf_loop env st = scf_for env [1..<MAXITER + 1] st"

text \<open>The cell \<^verbatim>\<open>==> Pre-Iteration Setup <==\<close>, for the core-guess density \<open>D0\<close>.\<close>

definition initial_state :: "ndarray \<Rightarrow> scf_state" where
  "initial_state D0 = \<lparr>D = D0, SCF_E = 0, E_old = 0, F_list = [], DIIS_RESID = []\<rparr>"

text \<open>
  The convergence test of the loop, for the state at the head of an iteration.
\<close>

definition scf_converged :: "scf_env \<Rightarrow> scf_state \<Rightarrow> bool" where
  "scf_converged env st \<longleftrightarrow>
     (let F = fock env (D st)
      in converged (energy env F (D st) - E_old st) (rms (resid env F (D st))))"

subsection \<open>The contract of the linear solver\<close>

text \<open>
  NumPy documents \<^verbatim>\<open>np.linalg.solve(a, b)\<close> as computing the exact solution of
  the full-rank square system \<^verbatim>\<open>a x = b\<close>. In exact arithmetic that is the
  following contract, which speaks of non-singular systems only: on a singular matrix
  LAPACK raises \<^verbatim>\<open>LinAlgError\<close> only when it meets a pivot that is exactly zero,
  and nothing is assumed of the solver there. A matrix is singular when some non-zero
  vector is mapped to zero.
\<close>

definition mat_vec :: "matrix \<Rightarrow> real list \<Rightarrow> real list" where
  "mat_vec A x = map (\<lambda>row. dot row x) A"

definition square :: "matrix \<Rightarrow> bool" where
  "square A \<longleftrightarrow> (\<forall>row \<in> set A. length row = length A)"

definition singular :: "matrix \<Rightarrow> bool" where
  "singular A \<longleftrightarrow>
     (\<exists>x. length x = length A \<and> x \<noteq> replicate (length A) 0 \<and>
          mat_vec A x = replicate (length A) 0)"

definition solve_contract :: "solver \<Rightarrow> bool" where
  "solve_contract slv \<longleftrightarrow>
     (\<forall>A b. square A \<and> length b = length A \<and> \<not> singular A \<longrightarrow>
        (\<exists>x. slv A b = Inr x \<and> length x = length A \<and> mat_vec A x = b))"

text \<open>
  A solver that meets the contract: Gaussian elimination in exact arithmetic on the
  equations \<open>(row, right-hand side)\<close>. A pivot is any equation whose leading entry is
  not zero; with none left the matrix is singular and the solver raises
  \<^verbatim>\<open>LinAlgError\<close>, as LAPACK does on a pivot that is exactly zero.
\<close>

type_synonym equation = "real list \<times> real"

fun find_pivot :: "equation list \<Rightarrow> (equation \<times> equation list) option" where
  "find_pivot [] = None"
| "find_pivot (r # rs) =
     (if hd (fst r) \<noteq> 0 then Some (r, rs)
      else (case find_pivot rs of None \<Rightarrow> None | Some (p, rest) \<Rightarrow> Some (p, r # rest)))"

definition eliminate :: "equation \<Rightarrow> equation \<Rightarrow> equation" where
  "eliminate p r =
     (let f = hd (fst r) / hd (fst p)
      in (map2 (\<lambda>a b. a - f * b) (tl (fst r)) (tl (fst p)), snd r - f * snd p))"

fun gauss :: "nat \<Rightarrow> equation list \<Rightarrow> real list option" where
  "gauss 0 rows = Some []"
| "gauss (Suc n) rows =
     (case find_pivot rows of
        None \<Rightarrow> None
      | Some (p, rest) \<Rightarrow>
          (case gauss n (map (eliminate p) rest) of
             None \<Rightarrow> None
           | Some xs \<Rightarrow> Some ((snd p - dot (tl (fst p)) xs) / hd (fst p) # xs)))"

definition exact_solve :: solver where
  "exact_solve A b =
     (if square A \<and> length b = length A
      then (case gauss (length A) (zip A b) of None \<Rightarrow> Inl LinAlgError | Some x \<Rightarrow> Inr x)
      else Inl LinAlgError)"

definition wf_sys :: "nat \<Rightarrow> equation list \<Rightarrow> bool" where
  "wf_sys n rows \<longleftrightarrow> length rows = n \<and> (\<forall>r \<in> set rows. length (fst r) = n)"

subsection \<open>Notions used in the statements\<close>

text \<open>
  The residuals of a history have one shape; the trial vectors of a history are
  well-formed arrays of the shape of the current Fock matrix.
\<close>

definition same_shape :: "ndarray list \<Rightarrow> bool" where
  "same_shape R \<longleftrightarrow> (\<forall>a \<in> set R. \<forall>b \<in> set R. shape a = shape b)"

definition all_like :: "ndarray \<Rightarrow> ndarray list \<Rightarrow> bool" where
  "all_like F Ts \<longleftrightarrow> wf_array F \<and> (\<forall>T \<in> set Ts. wf_array T \<and> shape T = shape F)"

definition gram :: "ndarray list \<Rightarrow> nat \<Rightarrow> nat \<Rightarrow> real" where
  "gram R i j = dot (data (R ! i)) (data (R ! j))"

text \<open>
  The bordered matrix before the loops fill it, and the augmented matrix of the
  Pulay equation in closed form.
\<close>

definition border :: "(nat \<Rightarrow> nat \<Rightarrow> real) \<Rightarrow> nat \<Rightarrow> matrix" where
  "border g n = set_corner 0 (set_last_col (- 1) (set_last_row (- 1) (np_empty g n)))"

definition pulay_matrix :: "ndarray list \<Rightarrow> matrix" where
  "pulay_matrix R =
     map (\<lambda>i. map (\<lambda>j. gram R i j) [0..<length R] @ [- 1]) [0..<length R]
       @ [replicate (length R) (- 1) @ [0]]"

text \<open>
  The short-circuit that the specification describes for a history of one pair: no
  solve, the coefficient vector is \<open>[1.0]\<close>, and the result is the linear combination
  of the trial vectors with it.
\<close>

definition short_circuit_coeff :: "real list" where
  "short_circuit_coeff = [1]"

definition short_circuit_step :: "ndarray \<Rightarrow> ndarray list \<Rightarrow> error + ndarray" where
  "short_circuit_step F Fs =
     diis_accumulate short_circuit_coeff Fs [0..<length short_circuit_coeff] (zeros_like F)"

text \<open>
  The extrapolation block of a pass that has not converged, on the lists as they are
  after the two \<^verbatim>\<open>append\<close> statements; and the condition that the two NumPy
  routines raise their own exceptions, never the one the loop raises.
\<close>

definition pass_extrapolation :: "scf_env \<Rightarrow> nat \<Rightarrow> scf_state \<Rightarrow> error + ndarray" where
  "pass_extrapolation env scf_iter st =
     diis_extrapolate (solve env) (uninit env) scf_iter (fock env (D st))
       (F_list st @ [fock env (D st)])
       (DIIS_RESID st @ [resid env (fock env (D st)) (D st)])"

definition numpy_errors :: "scf_env \<Rightarrow> bool" where
  "numpy_errors env \<longleftrightarrow>
     (\<forall>A b. solve env A b \<noteq> Inl MaxIterExceeded) \<and>
     (\<forall>F. new_density env F \<noteq> Inl MaxIterExceeded)"

subsection \<open>Concrete environments\<close>

text \<open>
  Small environments on which the model is run: in the first the residual is the Fock
  matrix itself and the new density is the Fock matrix reversed; in the second every
  residual is the same array; the third is the first with residuals of shape \<open>(2, 1)\<close>.
\<close>

definition demo_env :: scf_env where
  "demo_env =
     \<lparr>fock = (\<lambda>D. D), resid = (\<lambda>F D. F), energy = (\<lambda>F D. data D ! 0),
      new_density = (\<lambda>F. Inr (F\<lparr>data := rev (data F)\<rparr>)),
      solve = exact_solve, uninit = (\<lambda>i j. 0)\<rparr>"

definition dup_env :: scf_env where
  "dup_env =
     \<lparr>fock = (\<lambda>D. D), resid = (\<lambda>F D. \<lparr>shape = (1, 1), data = [1]\<rparr>),
      energy = (\<lambda>F D. data D ! 0),
      new_density = (\<lambda>F. Inr (F\<lparr>data := map (\<lambda>v. v + 1) (data F)\<rparr>)),
      solve = exact_solve, uninit = (\<lambda>i j. 0)\<rparr>"

definition mis_env :: scf_env where
  "mis_env = demo_env\<lparr>resid := (\<lambda>F D. \<lparr>shape = (2, 1), data = data F\<rparr>)\<rparr>"

section \<open>Auxiliary facts\<close>

lemma ebind_simps:
  "ebind (Inl e) f = Inl e"
  "ebind (Inr x) f = f x"
  by (simp_all add: ebind_def)

subsection \<open>Equations for evaluation\<close>

text \<open>
  The convergence test without the square root, so that the loop can be evaluated.
\<close>

lemma sqrt_less_D_conv: "sqrt x < D_conv \<longleftrightarrow> x < D_conv ^ 2"
proof -
  have "sqrt x < sqrt (D_conv ^ 2) \<longleftrightarrow> x < D_conv ^ 2"
    by (rule real_sqrt_less_iff)
  moreover have "sqrt (D_conv ^ 2) = D_conv"
    by (simp add: D_conv_def)
  ultimately show ?thesis by simp
qed

lemma scf_converged_code [code]:
  "scf_converged env st \<longleftrightarrow>
     (let F = fock env (D st); diis_r = resid env F (D st)
      in \<bar>energy env F (D st) - E_old st\<bar> < E_conv \<and> data diis_r \<noteq> [] \<and>
         sum_list (map (\<lambda>v. v ^ 2) (data diis_r)) / real (length (data diis_r)) < D_conv ^ 2)"
  by (simp add: scf_converged_def converged_def rms_def Let_def sqrt_less_D_conv)

lemma scf_body_code [code]:
  "scf_body env scf_iter st =
     (let F = fock env (D st);
          diis_r = resid env F (D st);
          st2 = (append_pair st F diis_r)\<lparr>SCF_E := energy env F (D st)\<rparr>
      in if scf_converged env st then Inr (Break, st2)
         else
           let st3 = st2\<lparr>E_old := SCF_E st2\<rparr> in
           ebind (diis_extrapolate (solve env) (uninit env) scf_iter F
                    (F_list st3) (DIIS_RESID st3)) (\<lambda>F'.
           ebind (new_density env F') (\<lambda>D'.
           if scf_iter = MAXITER then Inl MaxIterExceeded
           else Inr (Continue, st3\<lparr>D := D'\<rparr>))))"
  by (simp add: scf_body_def scf_converged_def Let_def append_pair_def)

subsection \<open>The loops that fill the matrix\<close>

lemma fill_row_inv:
  assumes "same_shape R" "i < length R" "\<forall>j \<in> set js. j < length R"
    and "i < length B" "\<forall>j \<in> set js. j < length (B ! i)"
  shows "\<exists>B'. fill_row R i js B = Inr B' \<and> length B' = length B \<and>
           (\<forall>k < length B. length (B' ! k) = length (B ! k)) \<and>
           (\<forall>k < length B. \<forall>l < length (B ! k).
              B' ! k ! l = (if k = i \<and> l \<in> set js then gram R i l else B ! k ! l))"
  using assms
proof (induction js arbitrary: B)
  case Nil
  then show ?case by simp
next
  case (Cons j js)
  let ?v = "gram R i j"
  let ?B1 = "B[i := (B ! i)[j := ?v]]"
  have sh: "shape (R ! i) = shape (R ! j)"
    using Cons.prems by (simp add: same_shape_def)
  have step: "fill_row R i (j # js) B = fill_row R i js ?B1"
    using Cons.prems sh
    by (simp add: getitem_def einsum_ij_ij_def setitem2_def ebind_simps gram_def)
  have "\<exists>B'. fill_row R i js ?B1 = Inr B' \<and> length B' = length ?B1 \<and>
           (\<forall>k < length ?B1. length (B' ! k) = length (?B1 ! k)) \<and>
           (\<forall>k < length ?B1. \<forall>l < length (?B1 ! k).
              B' ! k ! l = (if k = i \<and> l \<in> set js then gram R i l else ?B1 ! k ! l))"
    using Cons.prems by (intro Cons.IH) (simp_all add: nth_list_update)
  then obtain B' where B': "fill_row R i js ?B1 = Inr B'" "length B' = length B"
    "\<forall>k < length B. length (B' ! k) = length (?B1 ! k)"
    "\<forall>k < length B. \<forall>l < length (?B1 ! k).
        B' ! k ! l = (if k = i \<and> l \<in> set js then gram R i l else ?B1 ! k ! l)"
    by auto
  have len: "length (?B1 ! k) = length (B ! k)" if "k < length B" for k
    using that by (cases "k = i") simp_all
  have "\<forall>k < length B. \<forall>l < length (B ! k).
      B' ! k ! l = (if k = i \<and> l \<in> set (j # js) then gram R i l else B ! k ! l)"
  proof (intro allI impI)
    fix k l assume kl: "k < length B" "l < length (B ! k)"
    then have "B' ! k ! l = (if k = i \<and> l \<in> set js then gram R i l else ?B1 ! k ! l)"
      using B'(4) len by simp
    then show "B' ! k ! l = (if k = i \<and> l \<in> set (j # js) then gram R i l else B ! k ! l)"
      using kl \<open>i < length B\<close> by (auto simp: nth_list_update)
  qed
  then show ?case using step B' len by simp
qed

lemma fill_B_inv:
  assumes "same_shape R" "\<forall>i \<in> set is. i < length R" "\<forall>j \<in> set js. j < length R"
    and "\<forall>i \<in> set is. i < length B" "\<forall>i \<in> set is. \<forall>j \<in> set js. j < length (B ! i)"
  shows "\<exists>B'. fill_B R is js B = Inr B' \<and> length B' = length B \<and>
           (\<forall>k < length B. length (B' ! k) = length (B ! k)) \<and>
           (\<forall>k < length B. \<forall>l < length (B ! k).
              B' ! k ! l = (if k \<in> set is \<and> l \<in> set js then gram R k l else B ! k ! l))"
  using assms
proof (induction "is" arbitrary: B)
  case Nil
  then show ?case by simp
next
  case (Cons i "is")
  obtain B1 where B1: "fill_row R i js B = Inr B1" "length B1 = length B"
    "\<forall>k < length B. length (B1 ! k) = length (B ! k)"
    "\<forall>k < length B. \<forall>l < length (B ! k).
        B1 ! k ! l = (if k = i \<and> l \<in> set js then gram R i l else B ! k ! l)"
    using fill_row_inv [of R i js B] Cons.prems by auto
  have "\<exists>B'. fill_B R is js B1 = Inr B' \<and> length B' = length B1 \<and>
           (\<forall>k < length B1. length (B' ! k) = length (B1 ! k)) \<and>
           (\<forall>k < length B1. \<forall>l < length (B1 ! k).
              B' ! k ! l = (if k \<in> set is \<and> l \<in> set js then gram R k l else B1 ! k ! l))"
    using Cons.prems B1 by (intro Cons.IH) simp_all
  then obtain B' where B': "fill_B R is js B1 = Inr B'" "length B' = length B"
    "\<forall>k < length B. length (B' ! k) = length (B ! k)"
    "\<forall>k < length B. \<forall>l < length (B ! k).
        B' ! k ! l = (if k \<in> set is \<and> l \<in> set js then gram R k l else B1 ! k ! l)"
    using B1 by auto
  have "\<forall>k < length B. \<forall>l < length (B ! k).
      B' ! k ! l = (if k \<in> set (i # is) \<and> l \<in> set js then gram R k l else B ! k ! l)"
    using B'(4) B1(4) by auto
  then show ?case using B1(1) B' by (simp add: ebind_simps)
qed

lemma length_border: "length (border g n) = n"
  by (simp add: border_def set_corner_def set_last_col_def set_last_row_def np_empty_def)

lemma length_border_row: "k < n \<Longrightarrow> length (border g n ! k) = n"
  by (simp add: border_def set_corner_def set_last_col_def set_last_row_def np_empty_def
      nth_list_update)

lemma border_nth:
  "k < Suc N \<Longrightarrow> l < Suc N \<Longrightarrow>
   border g (Suc N) ! k ! l =
     (if k = N \<and> l = N then 0 else if k = N \<or> l = N then - 1 else g k l)"
  by (simp add: border_def set_corner_def set_last_col_def set_last_row_def np_empty_def
      nth_list_update del: upt_Suc)

lemma build_B_eq:
  assumes "same_shape R" "length Fs = length R"
  shows "build_B g Fs R = Inr (pulay_matrix R)"
proof -
  let ?N = "length R"
  let ?B3 = "border g (Suc ?N)"
  have eq: "build_B g Fs R = fill_B R [0..<?N] [0..<?N] ?B3"
    using assms by (simp add: build_B_def border_def Let_def)
  obtain B' where B': "fill_B R [0..<?N] [0..<?N] ?B3 = Inr B'" "length B' = Suc ?N"
    "\<forall>k < Suc ?N. length (B' ! k) = Suc ?N"
    "\<forall>k < Suc ?N. \<forall>l < Suc ?N.
        B' ! k ! l = (if k < ?N \<and> l < ?N then gram R k l else ?B3 ! k ! l)"
    using fill_B_inv [of R "[0..<?N]" "[0..<?N]" ?B3] assms(1)
    by (auto simp: length_border length_border_row)
  have "B' = pulay_matrix R"
  proof (rule nth_equalityI)
    show "length B' = length (pulay_matrix R)"
      using B'(2) by (simp add: pulay_matrix_def)
  next
    fix k assume "k < length B'"
    then have k: "k < Suc ?N" using B'(2) by simp
    show "B' ! k = pulay_matrix R ! k"
    proof (rule nth_equalityI)
      show "length (B' ! k) = length (pulay_matrix R ! k)"
        using k B'(3) by (simp add: pulay_matrix_def nth_append)
    next
      fix l assume "l < length (B' ! k)"
      then have l: "l < Suc ?N" using k B'(3) by simp
      have "B' ! k ! l = (if k < ?N \<and> l < ?N then gram R k l else ?B3 ! k ! l)"
        using B'(4) k l by blast
      then show "B' ! k ! l = pulay_matrix R ! k ! l"
        using k l by (auto simp: border_nth pulay_matrix_def nth_append less_Suc_eq)
    qed
  qed
  then show ?thesis using eq B'(1) by simp
qed

subsection \<open>Gaussian elimination meets the contract\<close>

lemma dot_Cons: "dot (a # as) (b # bs) = a * b + dot as bs"
  by (simp add: dot_def)

lemma dot_Nil: "dot [] ys = 0" "dot xs [] = 0"
  by (simp_all add: dot_def)

lemma dot_zeros: "dot as (replicate n 0) = 0"
proof (induction as arbitrary: n)
  case Nil
  then show ?case by (simp add: dot_def)
next
  case (Cons a as)
  then show ?case by (cases n) (simp_all add: dot_Cons dot_Nil)
qed

lemma dot_elim:
  "length as = length bs \<Longrightarrow>
   dot (map2 (\<lambda>a b. a - f * b) as bs) xs = dot as xs - f * dot bs xs"
proof (induction as bs arbitrary: xs rule: list_induct2)
  case Nil
  then show ?case by (simp add: dot_Nil)
next
  case (Cons a as b bs)
  then show ?case by (cases xs) (simp_all add: dot_Cons dot_Nil algebra_simps)
qed

lemma find_pivot_Some:
  "find_pivot rows = Some (p, rest) \<Longrightarrow>
   hd (fst p) \<noteq> 0 \<and> set rows = insert p (set rest) \<and> length rows = Suc (length rest)"
  by (induction rows arbitrary: rest) (auto split: if_splits option.splits)

lemma find_pivot_None: "find_pivot rows = None \<Longrightarrow> \<forall>r \<in> set rows. hd (fst r) = 0"
  by (induction rows) (auto split: if_splits option.splits)

lemma wf_sys_reduce:
  assumes "wf_sys (Suc n) rows" "find_pivot rows = Some (p, rest)"
  shows "wf_sys n (map (eliminate p) rest)"
    and "length (fst p) = Suc n" and "\<forall>r \<in> set rest. length (fst r) = Suc n"
proof -
  have s: "set rows = insert p (set rest)" "length rows = Suc (length rest)"
    using find_pivot_Some [OF assms(2)] by simp_all
  show "length (fst p) = Suc n" "\<forall>r \<in> set rest. length (fst r) = Suc n"
    using assms(1) s by (auto simp: wf_sys_def)
  then show "wf_sys n (map (eliminate p) rest)"
    using assms(1) s by (auto simp: wf_sys_def eliminate_def Let_def)
qed

lemma dot_eliminate:
  assumes "length (fst p) = Suc n" "length (fst r) = Suc n"
  shows "dot (fst (eliminate p r)) xs =
         dot (tl (fst r)) xs - hd (fst r) / hd (fst p) * dot (tl (fst p)) xs"
proof -
  have "length (tl (fst r)) = length (tl (fst p))"
    using assms by simp
  from dot_elim [OF this] show ?thesis
    unfolding eliminate_def Let_def fst_conv .
qed

lemma dot_hd_tl:
  "length as = Suc n \<Longrightarrow> dot as (x # xs) = hd as * x + dot (tl as) xs"
  by (cases as) (simp_all add: dot_Cons)

lemma gauss_sound:
  "wf_sys n rows \<Longrightarrow> gauss n rows = Some x \<Longrightarrow>
   length x = n \<and> (\<forall>r \<in> set rows. dot (fst r) x = snd r)"
proof (induction n arbitrary: rows x)
  case 0
  then show ?case by (simp add: wf_sys_def)
next
  case (Suc n)
  from Suc.prems(2) obtain p rest xs where
    piv: "find_pivot rows = Some (p, rest)" and
    rec: "gauss n (map (eliminate p) rest) = Some xs" and
    x: "x = (snd p - dot (tl (fst p)) xs) / hd (fst p) # xs"
    by (auto split: option.splits)
  note wf = wf_sys_reduce [OF Suc.prems(1) piv]
  have p0: "hd (fst p) \<noteq> 0" and rows: "set rows = insert p (set rest)"
    using find_pivot_Some [OF piv] by simp_all
  have ih: "length xs = n" "\<forall>r \<in> set rest. dot (fst (eliminate p r)) xs = snd (eliminate p r)"
    using Suc.IH [OF wf(1) rec] by simp_all
  let ?x0 = "(snd p - dot (tl (fst p)) xs) / hd (fst p)"
  have pe: "dot (fst p) x = snd p"
    using p0 wf(2) by (simp add: x dot_hd_tl)
  have "dot (fst r) x = snd r" if "r \<in> set rest" for r
  proof -
    have lr: "length (fst r) = Suc n" using wf(3) that by simp
    have "dot (tl (fst r)) xs - hd (fst r) / hd (fst p) * dot (tl (fst p)) xs =
          snd r - hd (fst r) / hd (fst p) * snd p"
      using ih(2) that dot_eliminate [OF wf(2) lr, of xs]
      by (simp add: eliminate_def Let_def)
    then have "dot (tl (fst r)) xs = snd r - hd (fst r) * ?x0"
      using p0 by (simp add: field_simps)
    then show ?thesis using lr by (simp add: x dot_hd_tl)
  qed
  then show ?case using pe rows ih(1) by (auto simp: x)
qed

lemma gauss_None:
  "wf_sys n rows \<Longrightarrow> gauss n rows = None \<Longrightarrow>
   \<exists>z. length z = n \<and> z \<noteq> replicate n 0 \<and> (\<forall>r \<in> set rows. dot (fst r) z = 0)"
proof (induction n arbitrary: rows)
  case 0
  then show ?case by simp
next
  case (Suc n)
  show ?case
  proof (cases "find_pivot rows")
    case None
    let ?z = "1 # replicate n (0::real)"
    have "\<forall>r \<in> set rows. dot (fst r) ?z = 0"
      using find_pivot_None [OF None] Suc.prems(1)
      by (auto simp: wf_sys_def dot_hd_tl dot_zeros)
    moreover have "length ?z = Suc n" "?z \<noteq> replicate (Suc n) 0" by simp_all
    ultimately show ?thesis by blast
  next
    case (Some a)
    obtain p rest where a: "a = (p, rest)" by (cases a)
    have piv: "find_pivot rows = Some (p, rest)" using Some a by simp
    have rec: "gauss n (map (eliminate p) rest) = None"
      using Suc.prems(2) piv by (auto split: option.splits)
    note wf = wf_sys_reduce [OF Suc.prems(1) piv]
    have p0: "hd (fst p) \<noteq> 0" and rows: "set rows = insert p (set rest)"
      using find_pivot_Some [OF piv] by simp_all
    obtain z where z: "length z = n" "z \<noteq> replicate n 0"
      "\<forall>r \<in> set rest. dot (fst (eliminate p r)) z = 0"
      using Suc.IH [OF wf(1) rec] by auto
    let ?z0 = "- dot (tl (fst p)) z / hd (fst p)"
    have pe: "dot (fst p) (?z0 # z) = 0"
      using p0 wf(2) by (simp add: dot_hd_tl)
    have "dot (fst r) (?z0 # z) = 0" if "r \<in> set rest" for r
    proof -
      have lr: "length (fst r) = Suc n" using wf(3) that by simp
      have "dot (tl (fst r)) z - hd (fst r) / hd (fst p) * dot (tl (fst p)) z = 0"
        using z(3) that dot_eliminate [OF wf(2) lr, of z] by simp
      then show ?thesis using lr p0 by (simp add: dot_hd_tl field_simps)
    qed
    then have "\<forall>r \<in> set rows. dot (fst r) (?z0 # z) = 0"
      using pe rows by auto
    moreover have "length (?z0 # z) = Suc n" "?z0 # z \<noteq> replicate (Suc n) 0"
      using z by simp_all
    ultimately show ?thesis by blast
  qed
qed

lemma gauss_unique:
  "wf_sys n rows \<Longrightarrow> gauss n rows = Some x \<Longrightarrow> length z = n \<Longrightarrow>
   \<forall>r \<in> set rows. dot (fst r) z = 0 \<Longrightarrow> z = replicate n 0"
proof (induction n arbitrary: rows x z)
  case 0
  then show ?case by simp
next
  case (Suc n)
  from Suc.prems(2) obtain p rest xs where
    piv: "find_pivot rows = Some (p, rest)" and
    rec: "gauss n (map (eliminate p) rest) = Some xs"
    by (auto split: option.splits)
  note wf = wf_sys_reduce [OF Suc.prems(1) piv]
  have p0: "hd (fst p) \<noteq> 0" and rows: "set rows = insert p (set rest)"
    using find_pivot_Some [OF piv] by simp_all
  obtain z0 zs where z: "z = z0 # zs" "length zs = n"
    using Suc.prems(3) by (cases z) simp_all
  have "dot (fst p) z = 0"
    using Suc.prems(4) rows by blast
  then have pe: "hd (fst p) * z0 + dot (tl (fst p)) zs = 0"
    using wf(2) by (simp add: z dot_hd_tl)
  have "dot (fst (eliminate p r)) zs = 0" if "r \<in> set rest" for r
  proof -
    have lr: "length (fst r) = Suc n" using wf(3) that by simp
    have "dot (fst r) z = 0"
      using Suc.prems(4) rows that by blast
    then have re: "hd (fst r) * z0 + dot (tl (fst r)) zs = 0"
      using lr by (simp add: z dot_hd_tl)
    have "dot (tl (fst p)) zs = - hd (fst p) * z0" using pe by simp
    moreover have "dot (tl (fst r)) zs = - hd (fst r) * z0" using re by simp
    ultimately show ?thesis
      using p0 by (simp add: dot_eliminate [OF wf(2) lr])
  qed
  then have "zs = replicate n 0"
    using Suc.IH [OF wf(1) rec z(2)] by simp
  then have "z0 = 0" using pe p0 by (simp add: dot_zeros)
  then show ?case using \<open>zs = replicate n 0\<close> z by simp
qed

lemma mat_vec_eq_iff:
  assumes "length b = length A"
  shows "mat_vec A x = b \<longleftrightarrow> (\<forall>r \<in> set (zip A b). dot (fst r) x = snd r)"
proof
  assume "mat_vec A x = b"
  then have "\<forall>i < length A. dot (A ! i) x = b ! i"
    by (auto simp: mat_vec_def)
  then show "\<forall>r \<in> set (zip A b). dot (fst r) x = snd r"
    by (auto simp: set_zip)
next
  assume r: "\<forall>r \<in> set (zip A b). dot (fst r) x = snd r"
  show "mat_vec A x = b"
  proof (rule nth_equalityI)
    show "length (mat_vec A x) = length b"
      using assms by (simp add: mat_vec_def)
  next
    fix i assume "i < length (mat_vec A x)"
    then have i: "i < length A" by (simp add: mat_vec_def)
    then have "(A ! i, b ! i) \<in> set (zip A b)"
      using assms by (auto simp: set_zip)
    then have "dot (A ! i) x = b ! i" using r by fastforce
    then show "mat_vec A x ! i = b ! i" using i by (simp add: mat_vec_def)
  qed
qed

lemma mat_vec_zero_iff:
  "mat_vec A z = replicate (length A) 0 \<longleftrightarrow> (\<forall>row \<in> set A. dot row z = 0)"
  by (induction A) (auto simp: mat_vec_def)

lemma wf_sys_zip:
  "square A \<Longrightarrow> length b = length A \<Longrightarrow> wf_sys (length A) (zip A b)"
  by (auto simp: wf_sys_def square_def dest: set_zip_leftD)

lemma fst_set_zip: "length b = length A \<Longrightarrow> fst ` set (zip A b) = set A"
  by (metis map_fst_zip set_map)

lemma exact_solve_cases:
  assumes sq: "square A" and lb: "length b = length A"
  shows "(singular A \<and> exact_solve A b = Inl LinAlgError) \<or>
         (\<not> singular A \<and>
          (\<exists>x. exact_solve A b = Inr x \<and> length x = length A \<and> mat_vec A x = b))"
proof -
  note wf = wf_sys_zip [OF sq lb]
  have hom: "(\<forall>r \<in> set (zip A b). dot (fst r) z = 0) \<longleftrightarrow> (\<forall>row \<in> set A. dot row z = 0)"
    for z using fst_set_zip [OF lb] by (metis (no_types, lifting) image_iff)
  show ?thesis
  proof (cases "gauss (length A) (zip A b)")
    case None
    obtain z where z: "length z = length A" "z \<noteq> replicate (length A) 0"
      "\<forall>r \<in> set (zip A b). dot (fst r) z = 0"
      using gauss_None [OF wf None] by auto
    then have "singular A"
      unfolding singular_def mat_vec_zero_iff using hom by blast
    then show ?thesis using None sq lb by (simp add: exact_solve_def)
  next
    case (Some x)
    have x: "length x = length A" "mat_vec A x = b"
      using gauss_sound [OF wf Some] mat_vec_eq_iff [OF lb] by simp_all
    have "\<not> singular A"
      unfolding singular_def mat_vec_zero_iff
      using gauss_unique [OF wf Some] hom by blast
    then show ?thesis using Some sq lb x by (simp add: exact_solve_def)
  qed
qed

lemma exact_solve_contract: "solve_contract exact_solve"
  unfolding solve_contract_def using exact_solve_cases by blast

subsection \<open>The assembled system\<close>

lemma length_pulay_matrix: "length (pulay_matrix R) = Suc (length R)"
  by (simp add: pulay_matrix_def)

lemma length_pulay_row: "i < Suc (length R) \<Longrightarrow> length (pulay_matrix R ! i) = Suc (length R)"
  by (simp add: pulay_matrix_def nth_append)

lemma pulay_matrix_nth:
  "i < Suc (length R) \<Longrightarrow> j < Suc (length R) \<Longrightarrow>
   pulay_matrix R ! i ! j =
     (if i = length R \<and> j = length R then 0
      else if i = length R \<or> j = length R then - 1 else gram R i j)"
  by (auto simp: pulay_matrix_def nth_append less_Suc_eq)

lemma gram_sym: "gram R i j = gram R j i"
proof -
  have "map2 (*) xs ys = map2 (*) ys xs" for xs ys :: "real list"
    by (induction xs ys rule: list_induct2') (simp_all add: mult.commute)
  then show ?thesis by (simp add: gram_def dot_def)
qed

lemma square_pulay_matrix: "square (pulay_matrix R)"
  by (auto simp: square_def pulay_matrix_def)

lemma replicate_update_last: "(replicate (Suc n) a)[n := b] = replicate n a @ [b]"
  by (induction n) simp_all

lemma build_rhs_eq: "build_rhs Fs = replicate (length Fs) 0 @ [- 1]"
  using replicate_update_last [of "length Fs" 0 "- 1 :: real"]
  by (simp add: build_rhs_def Let_def del: replicate_Suc)

lemma diis_accumulate_cong:
  "\<forall>x \<in> set xs. getitem c x = getitem c' x \<Longrightarrow>
   diis_accumulate c Fs xs F = diis_accumulate c' Fs xs F"
proof (induction xs arbitrary: F)
  case Nil
  then show ?case by simp
next
  case (Cons x xs)
  then show ?case by (simp add: ebind_def split: sum.splits)
qed

lemma diis_fock_butlast:
  "diis_fock F c Fs = diis_accumulate (butlast c) Fs [0..<length (butlast c)] (zeros_like F)"
proof -
  have "\<forall>x \<in> set [0..<length c - 1]. getitem c x = getitem (butlast c) x"
    by (auto simp: getitem_def nth_butlast)
  then show ?thesis
    unfolding diis_fock_def using diis_accumulate_cong by simp
qed

subsection \<open>The constraint row and the solver contract\<close>

lemma dot_append:
  "length as = length xs \<Longrightarrow> dot (as @ bs) (xs @ ys) = dot as xs + dot bs ys"
  by (simp add: dot_def)

lemma dot_replicate: "dot (replicate (length xs) a) xs = a * sum_list xs"
  by (induction xs) (simp_all add: dot_Cons dot_Nil algebra_simps)

lemma dot_constraint_row:
  assumes "length x = Suc n"
  shows "dot (replicate n (- 1) @ [0]) x = - sum_list (butlast x)"
proof -
  obtain ys l where x: "x = ys @ [l]" and n: "length ys = n"
    using assms by (auto simp: length_Suc_conv_rev)
  have "dot (replicate (length ys) (- 1) @ [0]) (ys @ [l])
      = dot (replicate (length ys) (- 1)) ys + dot [0] [l]"
    by (rule dot_append) simp
  also have "\<dots> = - sum_list ys"
    by (simp add: dot_replicate dot_Cons dot_Nil)
  finally show ?thesis
    using n by (simp add: x)
qed

lemma sum_butlast_nth: "(\<Sum>i < length c - 1. c ! i) = sum_list (butlast c)"
proof -
  have "sum_list (butlast c) = (\<Sum>i = 0..<length (butlast c). butlast c ! i)"
    by (rule sum_list_sum_nth)
  also have "\<dots> = (\<Sum>i = 0..<length c - 1. c ! i)"
    by (simp add: nth_butlast)
  finally show ?thesis by (simp add: atLeast0LessThan)
qed

lemma last_row_pulay_matrix:
  "pulay_matrix R ! length R = replicate (length R) (- 1) @ [0]"
  by (simp add: pulay_matrix_def nth_append)

lemma solve_contract_nonsingular:
  assumes "solve_contract slv" "square A" "length b = length A" "\<not> singular A"
  shows "\<exists>x. slv A b = Inr x \<and> length x = length A \<and> mat_vec A x = b"
  using assms unfolding solve_contract_def by blast

lemma length_build_rhs: "length (build_rhs Fs) = Suc (length Fs)"
  by (simp add: build_rhs_eq)

lemma exact_solve_nonsingular:
  assumes "exact_solve A b = Inr x"
  shows "\<not> singular A"
proof -
  have "square A" "length b = length A"
    using assms by (auto simp: exact_solve_def split: if_splits)
  from exact_solve_cases [OF this] assms show ?thesis by auto
qed

subsection \<open>The accumulation loop\<close>

lemma all_like_length:
  "all_like F Ts \<Longrightarrow> T \<in> set Ts \<Longrightarrow> length (data T) = length (data F) \<and> shape T = shape F"
  by (simp add: all_like_def wf_array_def)

lemma diis_accumulate_sum:
  assumes "all_like F Ts" and "shape G0 = shape F" and "length (data G0) = length (data F)"
    and "\<forall>x \<in> set xs. x < length c \<and> x < length Ts"
  shows "\<exists>G. diis_accumulate c Ts xs G0 = Inr G \<and> shape G = shape F \<and>
           length (data G) = length (data F) \<and>
           (\<forall>k < length (data F).
              data G ! k = data G0 ! k + (\<Sum>x \<leftarrow> xs. c ! x * data (Ts ! x) ! k))"
  using assms(2-)
proof (induction xs arbitrary: G0)
  case Nil
  then show ?case by simp
next
  case (Cons x xs)
  let ?T = "Ts ! x"
  let ?G1 = "G0\<lparr>data := map2 (+) (data G0) (map (\<lambda>v. c ! x * v) (data ?T))\<rparr>"
  have x: "x < length c" "x < length Ts" using Cons.prems(3) by simp_all
  then have T: "length (data ?T) = length (data F)" "shape ?T = shape F"
    using all_like_length [OF assms(1), of ?T] by simp_all
  have step: "diis_accumulate c Ts (x # xs) G0 = diis_accumulate c Ts xs ?G1"
    using x T Cons.prems(1) by (simp add: getitem_def ebind_simps iadd_def scale_def)
  have G1: "shape ?G1 = shape F" "length (data ?G1) = length (data F)"
    using Cons.prems(1,2) T by simp_all
  have "\<forall>x \<in> set xs. x < length c \<and> x < length Ts"
    using Cons.prems(3) by simp
  from Cons.IH [OF G1 this] obtain G where G: "diis_accumulate c Ts xs ?G1 = Inr G"
    "shape G = shape F" "length (data G) = length (data F)"
    "\<forall>k < length (data F).
        data G ! k = data ?G1 ! k + (\<Sum>x \<leftarrow> xs. c ! x * data (Ts ! x) ! k)"
    by blast
  have "\<forall>k < length (data F).
      data G ! k = data G0 ! k + (\<Sum>y \<leftarrow> x # xs. c ! y * data (Ts ! y) ! k)"
    using G(4) T(1) Cons.prems(2) by simp
  then show ?case using step G(1-3) by simp
qed

subsection \<open>The system of a single-entry history and of duplicate residuals\<close>

lemma zeros_plus_one_times: "map2 (+) (map (\<lambda>_. 0) xs) (map (\<lambda>v. 1 * v) xs) = (xs :: real list)"
  by (induction xs) simp_all

lemma diis_fock_single: "diis_fock T [1, l] [T] = Inr T"
  by (simp add: diis_fock_def getitem_def ebind_simps iadd_def scale_def zeros_like_def
      zeros_plus_one_times)

lemma short_circuit_single: "short_circuit_step T [T] = Inr T"
  by (simp add: short_circuit_step_def short_circuit_coeff_def getitem_def ebind_simps
      iadd_def scale_def zeros_like_def zeros_plus_one_times)

lemma pulay_matrix_single:
  "pulay_matrix [r] = [[dot (data r) (data r), - 1], [- 1, 0]]"
  by (simp add: pulay_matrix_def gram_def)

lemma length_two: "length x = 2 \<Longrightarrow> \<exists>a b. x = [a, b]"
  by (cases x; cases "tl x") auto

lemma single_system_solution:
  assumes "length x = 2" and "mat_vec [[d, - 1], [- 1, 0]] x = [u, - v]"
  shows "x = [v, d * v - u]"
proof -
  obtain a b where x: "x = [a, b]" using length_two [OF assms(1)] by blast
  show ?thesis using assms(2) by (auto simp: x mat_vec_def dot_Cons dot_Nil)
qed

lemma single_system_nonsingular: "\<not> singular [[d, - 1], [- 1, 0]]"
proof
  assume "singular [[d, - 1], [- 1, 0]]"
  then obtain x where x: "length x = 2" "x \<noteq> [0, 0]"
    "mat_vec [[d, - 1], [- 1, 0]] x = [0, - 0]"
    by (auto simp: singular_def numeral_2_eq_2)
  from single_system_solution [OF x(1,3)] x(2) show False by simp
qed

lemma duplicate_system_singular: "singular [[a, a, - 1], [a, a, - 1], [- 1, - 1, 0]]"
  unfolding singular_def
  by (rule exI [of _ "[1, - 1, 0]"]) (simp add: mat_vec_def dot_def)

subsection \<open>The loop body and the loop\<close>

lemma scf_body_converged:
  assumes "scf_converged env st"
  shows "scf_body env scf_iter st =
     Inr (Break, (append_pair st (fock env (D st)) (resid env (fock env (D st)) (D st)))
                   \<lparr>SCF_E := energy env (fock env (D st)) (D st)\<rparr>)"
  using assms by (simp add: scf_body_def scf_converged_def Let_def append_pair_def)

lemma scf_body_not_converged:
  assumes "\<not> scf_converged env st"
  shows "scf_body env scf_iter st =
     ebind (diis_extrapolate (solve env) (uninit env) scf_iter (fock env (D st))
              (F_list st @ [fock env (D st)])
              (DIIS_RESID st @ [resid env (fock env (D st)) (D st)])) (\<lambda>F'.
     ebind (new_density env F') (\<lambda>D'.
       if scf_iter = MAXITER then Inl MaxIterExceeded
       else Inr (Continue,
         (append_pair st (fock env (D st)) (resid env (fock env (D st)) (D st)))
           \<lparr>SCF_E := energy env (fock env (D st)) (D st),
            E_old := energy env (fock env (D st)) (D st), D := D'\<rparr>)))"
  using assms
  by (simp add: scf_body_def scf_converged_def Let_def append_pair_def cong: if_cong)

lemma scf_body_lists:
  assumes "scf_body env scf_iter st = Inr (fl, st')"
  shows "F_list st' = F_list st @ [fock env (D st)] \<and>
         DIIS_RESID st' = DIIS_RESID st @ [resid env (fock env (D st)) (D st)]"
proof (cases "scf_converged env st")
  case True
  then show ?thesis
    using assms by (auto simp: scf_body_converged append_pair_def)
next
  case False
  then show ?thesis
    using assms
    by (auto simp: scf_body_not_converged append_pair_def ebind_def
        split: sum.splits if_splits)
qed

lemma scf_body_Break:
  "scf_body env scf_iter st = Inr (Break, st') \<Longrightarrow> scf_converged env st"
  by (rule ccontr)
    (auto simp: scf_body_not_converged ebind_def split: sum.splits if_splits)

lemma scf_body_Continue:
  "scf_body env scf_iter st = Inr (Continue, st') \<Longrightarrow>
   \<not> scf_converged env st \<and> scf_iter \<noteq> MAXITER"
  by (cases "scf_converged env st")
    (auto simp: scf_body_converged scf_body_not_converged ebind_def
      split: sum.splits if_splits)

lemma scf_body_MAXITER:
  assumes "\<not> scf_converged env st"
  shows "\<exists>e. scf_body env MAXITER st = Inl e"
  using assms by (auto simp: scf_body_not_converged ebind_def split: sum.splits)

lemma scf_for_Cons:
  "scf_for env (i # rest) st = Inr (ex, st') \<Longrightarrow>
   (ex = Broke i \<and> scf_body env i st = Inr (Break, st')) \<or>
   (\<exists>st1. scf_body env i st = Inr (Continue, st1) \<and> scf_for env rest st1 = Inr (ex, st'))"
  by (auto split: sum.splits flow.splits)

lemma scf_for_history:
  "scf_for env is st = Inr (ex, st') \<Longrightarrow>
   \<exists>Fs Rs. F_list st' = F_list st @ Fs \<and> DIIS_RESID st' = DIIS_RESID st @ Rs \<and>
     length Fs = length Rs \<and>
     (case ex of
        Exhausted \<Rightarrow> length Fs = length is
      | Broke k \<Rightarrow> (\<exists>pre post. is = pre @ k # post \<and> length Fs = Suc (length pre)))"
proof (induction "is" arbitrary: st)
  case Nil
  then show ?case by auto
next
  case (Cons i rest)
  from scf_for_Cons [OF Cons.prems] show ?case
  proof
    assume b: "ex = Broke i \<and> scf_body env i st = Inr (Break, st')"
    then have "F_list st' = F_list st @ [fock env (D st)]"
      "DIIS_RESID st' = DIIS_RESID st @ [resid env (fock env (D st)) (D st)]"
      using scf_body_lists by blast+
    moreover have "\<exists>pre post. i # rest = pre @ i # post \<and> length [fock env (D st)] = Suc (length pre)"
      by (rule exI [of _ "[]"]) simp
    ultimately show ?thesis using b by auto
  next
    assume "\<exists>st1. scf_body env i st = Inr (Continue, st1) \<and> scf_for env rest st1 = Inr (ex, st')"
    then obtain st1 where st1: "scf_body env i st = Inr (Continue, st1)"
      "scf_for env rest st1 = Inr (ex, st')" by blast
    have l1: "F_list st1 = F_list st @ [fock env (D st)]"
      "DIIS_RESID st1 = DIIS_RESID st @ [resid env (fock env (D st)) (D st)]"
      using scf_body_lists [OF st1(1)] by simp_all
    from Cons.IH [OF st1(2)] obtain Fs Rs where ih:
      "F_list st' = F_list st1 @ Fs" "DIIS_RESID st' = DIIS_RESID st1 @ Rs"
      "length Fs = length Rs"
      "case ex of Exhausted \<Rightarrow> length Fs = length rest
       | Broke k \<Rightarrow> (\<exists>pre post. rest = pre @ k # post \<and> length Fs = Suc (length pre))"
      by blast
    let ?Fs = "fock env (D st) # Fs" and ?Rs = "resid env (fock env (D st)) (D st) # Rs"
    have "case ex of Exhausted \<Rightarrow> length ?Fs = length (i # rest)
       | Broke k \<Rightarrow> (\<exists>pre post. i # rest = pre @ k # post \<and> length ?Fs = Suc (length pre))"
    proof (cases ex)
      case (Broke k)
      then obtain pre post where "rest = pre @ k # post" "length Fs = Suc (length pre)"
        using ih(4) by auto
      then have "i # rest = (i # pre) @ k # post \<and> length ?Fs = Suc (length (i # pre))"
        by simp
      then show ?thesis using Broke by (simp only: loop_exit.case) blast
    next
      case Exhausted
      then show ?thesis using ih(4) by simp
    qed
    moreover have "F_list st' = F_list st @ ?Fs" "DIIS_RESID st' = DIIS_RESID st @ ?Rs"
      "length ?Fs = length ?Rs"
      using ih(1-3) l1 by simp_all
    ultimately show ?thesis by blast
  qed
qed

lemma scf_for_append:
  "scf_for env (is @ js) st =
     (case scf_for env is st of
        Inl e \<Rightarrow> Inl e
      | Inr (Broke k, st1) \<Rightarrow> Inr (Broke k, st1)
      | Inr (Exhausted, st1) \<Rightarrow> scf_for env js st1)"
  by (induction "is" arbitrary: st) (auto split: sum.splits flow.splits loop_exit.splits)

lemma upt_split_at:
  assumes "[a..<b] = pre @ k # post"
  shows "k = a + length pre"
proof -
  have "[a..<b] ! length pre = k" using assms by simp
  moreover have "length pre < length [a..<b]" using assms by simp
  ultimately show ?thesis by simp
qed

lemma initial_lists: "F_list (initial_state D0) = []" "DIIS_RESID (initial_state D0) = []"
  by (simp_all add: initial_state_def)

lemma scf_for_upt_length:
  assumes "scf_for env [a..<a + k] st = Inr (ex, st')"
  shows "length (F_list st') = length (F_list st) + (case ex of Exhausted \<Rightarrow> k | Broke i \<Rightarrow> Suc i - a)"
    and "length (DIIS_RESID st') = length (DIIS_RESID st) + (case ex of Exhausted \<Rightarrow> k | Broke i \<Rightarrow> Suc i - a)"
    and "take (length (F_list st)) (F_list st') = F_list st"
    and "take (length (DIIS_RESID st)) (DIIS_RESID st') = DIIS_RESID st"
proof -
  from scf_for_history [OF assms] obtain Fs Rs where h:
    "F_list st' = F_list st @ Fs" "DIIS_RESID st' = DIIS_RESID st @ Rs" "length Fs = length Rs"
    "case ex of Exhausted \<Rightarrow> length Fs = length [a..<a + k]
     | Broke i \<Rightarrow> (\<exists>pre post. [a..<a + k] = pre @ i # post \<and> length Fs = Suc (length pre))"
    by blast
  have n: "length Fs = (case ex of Exhausted \<Rightarrow> k | Broke i \<Rightarrow> Suc i - a)"
  proof (cases ex)
    case (Broke i)
    then obtain pre post where p: "[a..<a + k] = pre @ i # post" "length Fs = Suc (length pre)"
      using h(4) by auto
    from upt_split_at [OF p(1)] p(2) show ?thesis using Broke by simp
  next
    case Exhausted
    then show ?thesis using h(4) by simp
  qed
  show "length (F_list st') = length (F_list st) + (case ex of Exhausted \<Rightarrow> k | Broke i \<Rightarrow> Suc i - a)"
    "length (DIIS_RESID st') = length (DIIS_RESID st) + (case ex of Exhausted \<Rightarrow> k | Broke i \<Rightarrow> Suc i - a)"
    "take (length (F_list st)) (F_list st') = F_list st"
    "take (length (DIIS_RESID st)) (DIIS_RESID st') = DIIS_RESID st"
    using h(1-3) n by simp_all
qed

subsection \<open>Where an exception comes from, and where a run stops\<close>

lemma fill_row_error:
  "fill_row R i js B = Inl e \<Longrightarrow> e = IndexError \<or> e = ValueError"
proof (induction js arbitrary: B)
  case Nil
  then show ?case by simp
next
  case (Cons j js)
  then show ?case
    by (auto simp: ebind_def getitem_def einsum_ij_ij_def setitem2_def
        split: sum.splits if_splits)
qed

lemma fill_B_error:
  "fill_B R is js B = Inl e \<Longrightarrow> e = IndexError \<or> e = ValueError"
proof (induction "is" arbitrary: B)
  case Nil
  then show ?case by simp
next
  case (Cons i "is")
  then show ?case
    using fill_row_error by (auto simp: ebind_def split: sum.splits)
qed

lemma build_B_error:
  "build_B g Fs Rs = Inl e \<Longrightarrow> e = IndexError \<or> e = ValueError"
  unfolding build_B_def Let_def by (rule fill_B_error)

lemma diis_accumulate_error:
  "diis_accumulate c Fs xs G = Inl e \<Longrightarrow> e = IndexError \<or> e = ValueError"
proof (induction xs arbitrary: G)
  case Nil
  then show ?case by simp
next
  case (Cons x xs)
  then show ?case
    by (auto simp: ebind_def getitem_def iadd_def split: sum.splits if_splits)
qed

lemma diis_extrapolate_error:
  assumes "diis_extrapolate slv g scf_iter F Fs Rs = Inl e"
  shows "e = IndexError \<or> e = ValueError \<or> (\<exists>A b. slv A b = Inl e)"
proof -
  have "2 \<le> scf_iter" and sp: "diis_solve_path slv g F Fs Rs = Inl e"
    using assms by (auto simp: diis_extrapolate_def split: if_splits)
  show ?thesis
  proof (cases "build_B g Fs Rs")
    case (Inl e')
    then have "e' = e" using sp by (simp add: diis_solve_path_def pulay_solve_def ebind_simps)
    then show ?thesis using Inl build_B_error by blast
  next
    case (Inr B)
    show ?thesis
    proof (cases "slv B (build_rhs Fs)")
      case (Inl e')
      then have "e' = e"
        using sp Inr by (simp add: diis_solve_path_def pulay_solve_def ebind_simps)
      then show ?thesis using Inl by blast
    next
      case (Inr c)
      then have "diis_fock F c Fs = Inl e"
        using sp \<open>build_B g Fs Rs = Inr B\<close>
        by (simp add: diis_solve_path_def pulay_solve_def ebind_simps)
      then have "e = IndexError \<or> e = ValueError"
        unfolding diis_fock_def by (rule diis_accumulate_error)
      then show ?thesis by blast
    qed
  qed
qed

lemma pass_extrapolation_error:
  "numpy_errors env \<Longrightarrow> pass_extrapolation env k s = Inl e \<Longrightarrow> e \<noteq> MaxIterExceeded"
  using diis_extrapolate_error [of "solve env" "uninit env" k]
  by (fastforce simp: pass_extrapolation_def numpy_errors_def)

lemma scf_body_outcomes:
  "scf_body env k s =
     (if scf_converged env s
      then Inr (Break, (append_pair s (fock env (D s)) (resid env (fock env (D s)) (D s)))
                         \<lparr>SCF_E := energy env (fock env (D s)) (D s)\<rparr>)
      else (case pass_extrapolation env k s of
              Inl e \<Rightarrow> Inl e
            | Inr F' \<Rightarrow>
                (case new_density env F' of
                   Inl e \<Rightarrow> Inl e
                 | Inr D' \<Rightarrow>
                     if k = MAXITER then Inl MaxIterExceeded
                     else Inr (Continue,
                       (append_pair s (fock env (D s)) (resid env (fock env (D s)) (D s)))
                         \<lparr>SCF_E := energy env (fock env (D s)) (D s),
                          E_old := energy env (fock env (D s)) (D s), D := D'\<rparr>))))"
  by (cases "scf_converged env s")
    (simp_all add: scf_body_converged scf_body_not_converged pass_extrapolation_def ebind_def
      split: sum.splits)

lemma scf_for_stops:
  "scf_for env is st = r \<Longrightarrow> \<forall>s. r \<noteq> Inr (Exhausted, s) \<Longrightarrow>
   \<exists>pre k post s. is = pre @ k # post \<and> scf_for env pre st = Inr (Exhausted, s) \<and>
     (case scf_body env k s of
        Inl e \<Rightarrow> r = Inl e
      | Inr (Break, s') \<Rightarrow> r = Inr (Broke k, s')
      | Inr (Continue, s') \<Rightarrow> False)"
proof (induction "is" arbitrary: st)
  case Nil
  then show ?case by auto
next
  case (Cons i rest)
  show ?case
  proof (cases "scf_body env i st")
    case (Inl e)
    then have "i # rest = [] @ i # rest \<and> scf_for env [] st = Inr (Exhausted, st) \<and>
      (case scf_body env i st of Inl e \<Rightarrow> r = Inl e | Inr (Break, s') \<Rightarrow> r = Inr (Broke i, s')
       | Inr (Continue, s') \<Rightarrow> False)"
      using Cons.prems(1) by auto
    then show ?thesis by blast
  next
    case (Inr p)
    obtain fl s1 where p: "p = (fl, s1)" by (cases p)
    show ?thesis
    proof (cases fl)
      case Break
      then have "i # rest = [] @ i # rest \<and> scf_for env [] st = Inr (Exhausted, st) \<and>
        (case scf_body env i st of Inl e \<Rightarrow> r = Inl e | Inr (Break, s') \<Rightarrow> r = Inr (Broke i, s')
         | Inr (Continue, s') \<Rightarrow> False)"
        using Cons.prems(1) Inr p by auto
      then show ?thesis by blast
    next
      case Continue
      then have rest: "scf_for env rest s1 = r"
        using Cons.prems(1) Inr p by simp
      from Cons.IH [OF rest Cons.prems(2)] obtain pre k post s where
        h: "rest = pre @ k # post" "scf_for env pre s1 = Inr (Exhausted, s)"
        "case scf_body env k s of Inl e \<Rightarrow> r = Inl e | Inr (Break, s') \<Rightarrow> r = Inr (Broke k, s')
         | Inr (Continue, s') \<Rightarrow> False"
        by blast
      have "i # rest = (i # pre) @ k # post" "scf_for env (i # pre) st = Inr (Exhausted, s)"
        using h(1,2) Inr p Continue by simp_all
      then show ?thesis using h(3) by blast
    qed
  qed
qed

lemma upt_split_pre:
  assumes "[a..<b] = pre @ k # post"
  shows "pre = [a..<k] \<and> a \<le> k \<and> k < b"
proof -
  have k: "k = a + length pre" using upt_split_at [OF assms] .
  have len: "length pre < length [a..<b]" using assms by simp
  have "pre = take (length pre) [a..<b]" using assms by simp
  also have "\<dots> = [a..<a + length pre]"
    using len by (simp add: take_upt)
  finally show ?thesis using k len by simp
qed

lemma scf_for_not_exhausted:
  "is \<noteq> [] \<Longrightarrow> last is = MAXITER \<Longrightarrow> scf_for env is s \<noteq> Inr (Exhausted, s')"
proof (induction "is" arbitrary: s)
  case Nil
  then show ?case by simp
next
  case (Cons i rest)
  show ?case
  proof
    assume ex: "scf_for env (i # rest) s = Inr (Exhausted, s')"
    from scf_for_Cons [OF ex] obtain s1 where
      s1: "scf_body env i s = Inr (Continue, s1)" "scf_for env rest s1 = Inr (Exhausted, s')"
      by auto
    show False
    proof (cases "rest = []")
      case True
      then have "i = MAXITER" using Cons.prems(2) by simp
      then show False using scf_body_Continue [OF s1(1)] by simp
    next
      case False
      then have "last rest = MAXITER" using Cons.prems(2) by simp
      from Cons.IH [OF False this] s1(2) show False by simp
    qed
  qed
qed

lemma exact_solve_error: "exact_solve A b = Inl e \<Longrightarrow> e = LinAlgError"
  by (auto simp: exact_solve_def split: if_splits option.splits)

section \<open>The claims\<close>

text \<open>
  C1. With residuals of one shape and as many trial vectors as residuals, the block
  \<^verbatim>\<open># Build B matrix\<close> yields the \<open>(N+1) \<times> (N+1)\<close> matrix whose entry \<open>(i, j)\<close>,
  \<open>i, j < N\<close>, is the inner product of residuals \<open>i\<close> and \<open>j\<close> (so that block is
  symmetric), whose last row and column are \<open>-1\<close> and whose corner is \<open>0\<close>; the
  right-hand side is zero but for a final \<open>-1\<close>; and once \<^verbatim>\<open>scf_iter >= 2\<close> the
  extrapolation solves that system and accumulates the trial vectors with all but the
  last entry of the solution, or raises what the solver raises.
\<close>

theorem pulay_equation_assembled:
  assumes "same_shape Rs" and "length Fs = length Rs" and "2 \<le> scf_iter"
  shows "\<exists>B. build_B g Fs Rs = Inr B \<and>
           length B = length Rs + 1 \<and>
           (\<forall>i < length Rs + 1. length (B ! i) = length Rs + 1) \<and>
           (\<forall>i < length Rs. \<forall>j < length Rs.
              einsum_ij_ij (Rs ! i) (Rs ! j) = Inr (B ! i ! j) \<and>
              B ! i ! j = dot (data (Rs ! i)) (data (Rs ! j)) \<and> B ! i ! j = B ! j ! i) \<and>
           (\<forall>j < length Rs. B ! length Rs ! j = - 1 \<and> B ! j ! length Rs = - 1) \<and>
           B ! length Rs ! length Rs = 0 \<and>
           build_rhs Fs = replicate (length Rs) 0 @ [- 1] \<and>
           diis_extrapolate slv g scf_iter F Fs Rs =
             (case slv B (build_rhs Fs) of
                Inl e \<Rightarrow> Inl e
              | Inr c \<Rightarrow> diis_accumulate (butlast c) Fs [0..<length (butlast c)] (zeros_like F))"
proof -
  let ?B = "pulay_matrix Rs"
  have B: "build_B g Fs Rs = Inr ?B"
    using assms(1,2) by (rule build_B_eq)
  have dims: "length ?B = length Rs + 1" "\<forall>i < length Rs + 1. length (?B ! i) = length Rs + 1"
    by (simp_all add: length_pulay_matrix length_pulay_row)
  have inner: "\<forall>i < length Rs. \<forall>j < length Rs.
      einsum_ij_ij (Rs ! i) (Rs ! j) = Inr (?B ! i ! j) \<and>
      ?B ! i ! j = dot (data (Rs ! i)) (data (Rs ! j)) \<and> ?B ! i ! j = ?B ! j ! i"
  proof (intro allI impI)
    fix i j assume ij: "i < length Rs" "j < length Rs"
    have "shape (Rs ! i) = shape (Rs ! j)"
      using assms(1) ij by (simp add: same_shape_def)
    then show "einsum_ij_ij (Rs ! i) (Rs ! j) = Inr (?B ! i ! j) \<and>
      ?B ! i ! j = dot (data (Rs ! i)) (data (Rs ! j)) \<and> ?B ! i ! j = ?B ! j ! i"
      using ij gram_sym [of Rs i j]
      by (simp add: einsum_ij_ij_def pulay_matrix_nth gram_def)
  qed
  have edge: "\<forall>j < length Rs. ?B ! length Rs ! j = - 1 \<and> ?B ! j ! length Rs = - 1"
    and corner: "?B ! length Rs ! length Rs = 0"
    by (simp_all add: pulay_matrix_nth)
  have rhs: "build_rhs Fs = replicate (length Rs) 0 @ [- 1]"
    using assms(2) by (simp add: build_rhs_eq)
  have "diis_extrapolate slv g scf_iter F Fs Rs =
      (case slv ?B (build_rhs Fs) of
         Inl e \<Rightarrow> Inl e
       | Inr c \<Rightarrow> diis_accumulate (butlast c) Fs [0..<length (butlast c)] (zeros_like F))"
    using assms(3) B
    by (simp add: diis_extrapolate_def diis_solve_path_def pulay_solve_def ebind_def
        diis_fock_butlast split: sum.splits)
  then show ?thesis
    using B dims inner edge corner rhs by blast
qed

theorem pulay_equation_assembled_witness:
  "same_shape [\<lparr>shape = (1, 2), data = [1, 0]\<rparr>, \<lparr>shape = (1, 2), data = [0, 1]\<rparr>] \<and>
   (2::nat) \<le> 2 \<and>
   build_B (\<lambda>i j. 7) [\<lparr>shape = (1, 2), data = [1, 0]\<rparr>, \<lparr>shape = (1, 2), data = [0, 1]\<rparr>]
     [\<lparr>shape = (1, 2), data = [1, 0]\<rparr>, \<lparr>shape = (1, 2), data = [0, 1]\<rparr>]
     = Inr [[1, 0, - 1], [0, 1, - 1], [- 1, - 1, 0]] \<and>
   diis_extrapolate exact_solve (\<lambda>i j. 7) 2 \<lparr>shape = (1, 2), data = [0, 1]\<rparr>
     [\<lparr>shape = (1, 2), data = [1, 0]\<rparr>, \<lparr>shape = (1, 2), data = [0, 1]\<rparr>]
     [\<lparr>shape = (1, 2), data = [1, 0]\<rparr>, \<lparr>shape = (1, 2), data = [0, 1]\<rparr>]
     = Inr \<lparr>shape = (1, 2), data = [1 / 2, 1 / 2]\<rparr>"
proof -
  let ?Rs = "[\<lparr>shape = (1, 2), data = [1, 0]\<rparr>, \<lparr>shape = (1, 2), data = [0, 1::real]\<rparr>]"
  let ?F = "\<lparr>shape = (1, 2), data = [0, 1::real]\<rparr>"
  let ?g = "\<lambda>(i::nat) (j::nat). 7::real"
  have h: "same_shape ?Rs" by (simp add: same_shape_def)
  have l: "length ?Rs = length ?Rs" by simp
  have two: "(2::nat) \<le> 2" by simp
  obtain B where B: "build_B ?g ?Rs ?Rs = Inr B"
    and ex: "diis_extrapolate exact_solve ?g 2 ?F ?Rs ?Rs =
      (case exact_solve B (build_rhs ?Rs) of
         Inl e \<Rightarrow> Inl e
       | Inr c \<Rightarrow> diis_accumulate (butlast c) ?Rs [0..<length (butlast c)] (zeros_like ?F))"
    using pulay_equation_assembled [OF h l two, of ?g exact_solve ?F] by blast
  have Bv: "build_B ?g ?Rs ?Rs = Inr [[1, 0, - 1], [0, 1, - 1], [- 1, - 1, 0]]"
    by code_simp
  have Beq: "B = [[1, 0, - 1], [0, 1, - 1], [- 1, - 1, 0]]"
    using B Bv by simp
  have cv: "(case exact_solve [[1, 0, - 1], [0, 1, - 1], [- 1, - 1, 0]] (build_rhs ?Rs) of
         Inl e \<Rightarrow> Inl e
       | Inr c \<Rightarrow> diis_accumulate (butlast c) ?Rs [0..<length (butlast c)] (zeros_like ?F))
      = Inr \<lparr>shape = (1, 2), data = [1 / 2, 1 / 2]\<rparr>"
    by code_simp
  have "diis_extrapolate exact_solve ?g 2 ?F ?Rs ?Rs
      = Inr \<lparr>shape = (1, 2), data = [1 / 2, 1 / 2]\<rparr>"
    using ex unfolding Beq cv .
  then show ?thesis using h Bv by simp
qed

text \<open>
  C2, as the code has it. The claim that a singular system is survived by falling back
  to the latest trial vector fails: with two identical residuals the system is singular,
  the solver raises \<^verbatim>\<open>LinAlgError\<close>, the extrapolation returns no trial vector and
  the whole loop ends with that exception.
\<close>

theorem duplicate_residuals_counterexample:
  "build_B (uninit dup_env) [\<lparr>shape = (1, 1), data = [0]\<rparr>, \<lparr>shape = (1, 1), data = [1]\<rparr>]
     [\<lparr>shape = (1, 1), data = [1]\<rparr>, \<lparr>shape = (1, 1), data = [1]\<rparr>]
     = Inr [[1, 1, - 1], [1, 1, - 1], [- 1, - 1, 0]] \<and>
   singular [[1, 1, - 1], [1, 1, - 1], [- 1, - 1, 0]] \<and>
   diis_extrapolate (solve dup_env) (uninit dup_env) 2 \<lparr>shape = (1, 1), data = [1]\<rparr>
     [\<lparr>shape = (1, 1), data = [0]\<rparr>, \<lparr>shape = (1, 1), data = [1]\<rparr>]
     [\<lparr>shape = (1, 1), data = [1]\<rparr>, \<lparr>shape = (1, 1), data = [1]\<rparr>]
     = Inl LinAlgError \<and>
   diis_extrapolate (solve dup_env) (uninit dup_env) 2 \<lparr>shape = (1, 1), data = [1]\<rparr>
     [\<lparr>shape = (1, 1), data = [0]\<rparr>, \<lparr>shape = (1, 1), data = [1]\<rparr>]
     [\<lparr>shape = (1, 1), data = [1]\<rparr>, \<lparr>shape = (1, 1), data = [1]\<rparr>]
     \<noteq> Inr \<lparr>shape = (1, 1), data = [1]\<rparr> \<and>
   scf_loop dup_env (initial_state \<lparr>shape = (1, 1), data = [0]\<rparr>) = Inl LinAlgError"
proof -
  have b: "build_B (uninit dup_env) [\<lparr>shape = (1, 1), data = [0]\<rparr>, \<lparr>shape = (1, 1), data = [1]\<rparr>]
     [\<lparr>shape = (1, 1), data = [1]\<rparr>, \<lparr>shape = (1, 1), data = [1]\<rparr>]
     = Inr [[1, 1, - 1], [1, 1, - 1], [- 1, - 1, 0]]"
    by code_simp
  have e: "diis_extrapolate (solve dup_env) (uninit dup_env) 2 \<lparr>shape = (1, 1), data = [1]\<rparr>
     [\<lparr>shape = (1, 1), data = [0]\<rparr>, \<lparr>shape = (1, 1), data = [1]\<rparr>]
     [\<lparr>shape = (1, 1), data = [1]\<rparr>, \<lparr>shape = (1, 1), data = [1]\<rparr>]
     = Inl LinAlgError"
    by code_simp
  have l: "scf_loop dup_env (initial_state \<lparr>shape = (1, 1), data = [0]\<rparr>) = Inl LinAlgError"
    by code_simp
  show ?thesis
    using b e l duplicate_system_singular [of 1] by simp
qed

text \<open>
  C2, amended. When the solver raises on the augmented system of an iteration with
  \<^verbatim>\<open>scf_iter >= 2\<close> that has not converged (as it does on the system of two
  identical residuals above), the extrapolation raises the same exception, the loop body
  raises it, and so does the loop: nothing catches it, no trial vector is returned and
  no fallback vector is used.
\<close>

theorem solve_failure_propagates:
  assumes "\<not> scf_converged env st" and "2 \<le> scf_iter"
    and "build_B (uninit env) (F_list st @ [fock env (D st)])
           (DIIS_RESID st @ [resid env (fock env (D st)) (D st)]) = Inr B"
    and "solve env B (build_rhs (F_list st @ [fock env (D st)])) = Inl e"
  shows "diis_extrapolate (solve env) (uninit env) scf_iter (fock env (D st))
           (F_list st @ [fock env (D st)])
           (DIIS_RESID st @ [resid env (fock env (D st)) (D st)]) = Inl e \<and>
         scf_body env scf_iter st = Inl e \<and>
         scf_for env (scf_iter # rest) st = Inl e"
proof -
  let ?F = "fock env (D st)"
  let ?Fs = "F_list st @ [?F]"
  let ?Rs = "DIIS_RESID st @ [resid env ?F (D st)]"
  have ex: "diis_extrapolate (solve env) (uninit env) scf_iter ?F ?Fs ?Rs = Inl e"
    using assms(2,3,4)
    by (simp add: diis_extrapolate_def diis_solve_path_def pulay_solve_def ebind_simps)
  then have body: "scf_body env scf_iter st = Inl e"
    using assms(1) by (simp add: scf_body_not_converged ebind_simps)
  then have "scf_for env (scf_iter # rest) st = Inl e"
    by simp
  then show ?thesis using ex body by simp
qed

theorem solve_failure_propagates_witness:
  "\<not> scf_converged dup_env
       \<lparr>D = \<lparr>shape = (1, 1), data = [1]\<rparr>, SCF_E = 0, E_old = 0,
          F_list = [\<lparr>shape = (1, 1), data = [0]\<rparr>],
          DIIS_RESID = [\<lparr>shape = (1, 1), data = [1]\<rparr>]\<rparr> \<and>
   (2::nat) \<le> 2 \<and>
   solve dup_env [[1, 1, - 1], [1, 1, - 1], [- 1, - 1, 0]] [0, 0, - 1] = Inl LinAlgError \<and>
   scf_body dup_env 2
       \<lparr>D = \<lparr>shape = (1, 1), data = [1]\<rparr>, SCF_E = 0, E_old = 0,
          F_list = [\<lparr>shape = (1, 1), data = [0]\<rparr>],
          DIIS_RESID = [\<lparr>shape = (1, 1), data = [1]\<rparr>]\<rparr> = Inl LinAlgError \<and>
   scf_for dup_env [2, 3]
       \<lparr>D = \<lparr>shape = (1, 1), data = [1]\<rparr>, SCF_E = 0, E_old = 0,
          F_list = [\<lparr>shape = (1, 1), data = [0]\<rparr>],
          DIIS_RESID = [\<lparr>shape = (1, 1), data = [1]\<rparr>]\<rparr> = Inl LinAlgError"
proof -
  let ?st = "\<lparr>D = \<lparr>shape = (1, 1), data = [1]\<rparr>, SCF_E = 0, E_old = 0,
      F_list = [\<lparr>shape = (1, 1), data = [0]\<rparr>],
      DIIS_RESID = [\<lparr>shape = (1, 1), data = [1::real]\<rparr>]\<rparr>"
  let ?B = "[[1, 1, - 1], [1, 1, - 1], [- 1, - 1, 0::real]]"
  have nc: "\<not> scf_converged dup_env ?st"
    by code_simp
  have two: "(2::nat) \<le> 2" by simp
  have b: "build_B (uninit dup_env) (F_list ?st @ [fock dup_env (D ?st)])
      (DIIS_RESID ?st @ [resid dup_env (fock dup_env (D ?st)) (D ?st)]) = Inr ?B"
    by code_simp
  have sv: "solve dup_env ?B (build_rhs (F_list ?st @ [fock dup_env (D ?st)])) = Inl LinAlgError"
    by code_simp
  have sv': "solve dup_env ?B [0, 0, - 1] = Inl LinAlgError"
    by code_simp
  from solve_failure_propagates [OF nc two b sv, of "[3]"]
  show ?thesis using nc sv' by simp
qed

text \<open>
  C3. If the solver meets its contract and the augmented matrix built from the history
  is not singular, the solve succeeds with a solution of the Pulay equation, and the
  coefficients the extrapolation uses, \<^verbatim>\<open>coeff[x]\<close> for
  \<^verbatim>\<open>x in xrange(coeff.shape[0] - 1)\<close>, sum to exactly 1 (in exact arithmetic).
\<close>

theorem coefficients_sum_to_one:
  assumes "solve_contract slv" and "same_shape Rs" and "length Fs = length Rs"
    and "build_B g Fs Rs = Inr B" and "\<not> singular B"
  shows "\<exists>c. pulay_solve slv g Fs Rs = Inr c \<and> length c = length Rs + 1 \<and>
           mat_vec B c = build_rhs Fs \<and> (\<Sum>x < length c - 1. c ! x) = 1"
proof -
  have B: "B = pulay_matrix Rs"
    using build_B_eq [OF assms(2,3), of g] assms(4) by simp
  have sq: "square B" and lb: "length (build_rhs Fs) = length B"
    using assms(3) by (simp_all add: B square_pulay_matrix length_pulay_matrix length_build_rhs)
  obtain c where c: "slv B (build_rhs Fs) = Inr c" "length c = length B"
    "mat_vec B c = build_rhs Fs"
    using solve_contract_nonsingular [OF assms(1) sq lb assms(5)] by blast
  have len: "length c = Suc (length Rs)"
    using c(2) by (simp add: B length_pulay_matrix)
  have "mat_vec B c ! length Rs = build_rhs Fs ! length Rs"
    using c(3) by simp
  then have "dot (replicate (length Rs) (- 1) @ [0]) c = - 1"
    using assms(3) by (simp add: mat_vec_def B length_pulay_matrix last_row_pulay_matrix
        build_rhs_eq nth_append)
  then have "sum_list (butlast c) = 1"
    using dot_constraint_row [OF len] by simp
  then have "(\<Sum>x < length c - 1. c ! x) = 1"
    using sum_butlast_nth [of c] by simp
  moreover have "pulay_solve slv g Fs Rs = Inr c"
    using assms(4) c(1) by (simp add: pulay_solve_def ebind_simps)
  ultimately show ?thesis using len c(3) by simp
qed

theorem coefficients_sum_to_one_witness:
  "solve_contract exact_solve \<and>
   same_shape [\<lparr>shape = (1, 2), data = [1, 0]\<rparr>, \<lparr>shape = (1, 2), data = [0, 1]\<rparr>] \<and>
   build_B (\<lambda>i j. 7) [\<lparr>shape = (1, 2), data = [1, 0]\<rparr>, \<lparr>shape = (1, 2), data = [0, 1]\<rparr>]
     [\<lparr>shape = (1, 2), data = [1, 0]\<rparr>, \<lparr>shape = (1, 2), data = [0, 1]\<rparr>]
     = Inr [[1, 0, - 1], [0, 1, - 1], [- 1, - 1, 0]] \<and>
   \<not> singular [[1, 0, - 1], [0, 1, - 1], [- 1, - 1, 0]] \<and>
   (\<exists>c. pulay_solve exact_solve (\<lambda>i j. 7)
       [\<lparr>shape = (1, 2), data = [1, 0]\<rparr>, \<lparr>shape = (1, 2), data = [0, 1]\<rparr>]
       [\<lparr>shape = (1, 2), data = [1, 0]\<rparr>, \<lparr>shape = (1, 2), data = [0, 1]\<rparr>] = Inr c \<and>
      (\<Sum>x < length c - 1. c ! x) = 1)"
proof -
  let ?Rs = "[\<lparr>shape = (1, 2), data = [1, 0]\<rparr>, \<lparr>shape = (1, 2), data = [0, 1::real]\<rparr>]"
  let ?g = "\<lambda>(i::nat) (j::nat). 7::real"
  let ?B = "[[1, 0, - 1], [0, 1, - 1], [- 1, - 1, 0::real]]"
  have h: "same_shape ?Rs" by (simp add: same_shape_def)
  have l: "length ?Rs = length ?Rs" by simp
  have Bv: "build_B ?g ?Rs ?Rs = Inr ?B"
    by code_simp
  have "exact_solve ?B [0, 0, - 1] = Inr [1 / 2, 1 / 2, 1 / 2]"
    by code_simp
  then have ns: "\<not> singular ?B"
    by (rule exact_solve_nonsingular)
  show ?thesis
    using coefficients_sum_to_one [OF exact_solve_contract h l Bv ns] h Bv ns
      exact_solve_contract by blast
qed

text \<open>
  C4. In the first iteration (the history is empty before it, \<^verbatim>\<open>scf_iter = 1\<close>) the
  extrapolation returns the new Fock matrix as it is, whatever the solver and the
  uninitialised memory are; and the first pass of the loop either breaks on convergence
  or builds the next density from that unextrapolated matrix and goes on with
  iterations 2 to \<^verbatim>\<open>MAXITER\<close>.
\<close>

theorem first_iteration_passthrough:
  "diis_extrapolate slv g 1 F (F_list (append_pair (initial_state D0) F r))
     (DIIS_RESID (append_pair (initial_state D0) F r)) = Inr F \<and>
   scf_loop env (initial_state D0) =
     (let F = fock env D0; diis_r = resid env F D0; E = energy env F D0
      in if converged (E - 0) (rms diis_r)
         then Inr (Broke 1,
           \<lparr>D = D0, SCF_E = E, E_old = 0, F_list = [F], DIIS_RESID = [diis_r]\<rparr>)
         else ebind (new_density env F) (\<lambda>D'.
           scf_for env [2..<MAXITER + 1]
             \<lparr>D = D', SCF_E = E, E_old = E, F_list = [F], DIIS_RESID = [diis_r]\<rparr>))"
proof -
  have range: "[1..<MAXITER + 1] = 1 # [2..<MAXITER + 1]"
    by (simp add: MAXITER_def upt_conv_Cons)
  have "diis_extrapolate slv g 1 F (F_list (append_pair (initial_state D0) F r))
     (DIIS_RESID (append_pair (initial_state D0) F r)) = Inr F"
    by (simp add: diis_extrapolate_def)
  moreover have "scf_loop env (initial_state D0) =
     (let F = fock env D0; diis_r = resid env F D0; E = energy env F D0
      in if converged (E - 0) (rms diis_r)
         then Inr (Broke 1,
           \<lparr>D = D0, SCF_E = E, E_old = 0, F_list = [F], DIIS_RESID = [diis_r]\<rparr>)
         else ebind (new_density env F) (\<lambda>D'.
           scf_for env [2..<MAXITER + 1]
             \<lparr>D = D', SCF_E = E, E_old = E, F_list = [F], DIIS_RESID = [diis_r]\<rparr>))"
    unfolding scf_loop_def range
    by (simp add: scf_body_def Let_def append_pair_def initial_state_def
        diis_extrapolate_def ebind_def MAXITER_def split: sum.splits)
  ultimately show ?thesis by blast
qed

theorem first_iteration_passthrough_witness:
  "diis_extrapolate (\<lambda>A b. Inl LinAlgError) (\<lambda>i j. 0) 1 \<lparr>shape = (1, 2), data = [1, 0]\<rparr>
     [\<lparr>shape = (1, 2), data = [1, 0]\<rparr>] [\<lparr>shape = (1, 2), data = [3, 4]\<rparr>]
     = Inr \<lparr>shape = (1, 2), data = [1, 0]\<rparr> \<and>
   scf_loop demo_env (initial_state \<lparr>shape = (1, 2), data = [0, 0]\<rparr>) =
     Inr (Broke 1,
       \<lparr>D = \<lparr>shape = (1, 2), data = [0, 0]\<rparr>, SCF_E = 0, E_old = 0,
          F_list = [\<lparr>shape = (1, 2), data = [0, 0]\<rparr>],
          DIIS_RESID = [\<lparr>shape = (1, 2), data = [0, 0]\<rparr>]\<rparr>)"
proof -
  let ?D0 = "\<lparr>shape = (1, 2), data = [0, 0::real]\<rparr>"
  have c: "converged (energy demo_env (fock demo_env ?D0) ?D0 - 0)
      (rms (resid demo_env (fock demo_env ?D0) ?D0))"
    by (simp add: demo_env_def converged_def rms_def E_conv_def D_conv_def)
  show ?thesis
    using first_iteration_passthrough [of "\<lambda>A b. Inl LinAlgError" "\<lambda>i j. 0"
        "\<lparr>shape = (1, 2), data = [1, 0]\<rparr>" ?D0 "\<lparr>shape = (1, 2), data = [3, 4]\<rparr>" demo_env] c
    by (simp add: append_pair_def initial_state_def Let_def demo_env_def)
qed

text \<open>
  C5. When \<^verbatim>\<open>scf_iter >= 2\<close> and the solve returned \<open>c\<close> (\<open>N\<close> coefficients and the
  multiplier) for a history of \<open>N\<close> trial vectors shaped like the current Fock matrix,
  the extrapolated matrix has that shape and each of its entries is the sum over all
  \<open>N\<close> trial vectors of \<open>c\<^sub>i\<close> times the entry of trial vector \<open>i\<close>.
\<close>

theorem diis_linear_combination:
  assumes "2 \<le> scf_iter" and "pulay_solve slv g Fs Rs = Inr c"
    and "length c = length Fs + 1" and "all_like F Fs"
  shows "\<exists>G. diis_extrapolate slv g scf_iter F Fs Rs = Inr G \<and> shape G = shape F \<and>
           length (data G) = length (data F) \<and>
           (\<forall>k < length (data F).
              data G ! k = (\<Sum>i < length Fs. c ! i * data (Fs ! i) ! k))"
proof -
  have idx: "\<forall>x \<in> set [0..<length c - 1]. x < length c \<and> x < length Fs"
    using assms(3) by simp
  have z: "shape (zeros_like F) = shape F" "length (data (zeros_like F)) = length (data F)"
    by (simp_all add: zeros_like_def)
  from diis_accumulate_sum [OF assms(4) z idx] obtain G where
    G: "diis_accumulate c Fs [0..<length c - 1] (zeros_like F) = Inr G"
    "shape G = shape F" "length (data G) = length (data F)"
    "\<forall>k < length (data F).
        data G ! k = data (zeros_like F) ! k
          + (\<Sum>x \<leftarrow> [0..<length c - 1]. c ! x * data (Fs ! x) ! k)"
    by blast
  have "data G ! k = (\<Sum>i < length Fs. c ! i * data (Fs ! i) ! k)"
    if "k < length (data F)" for k
  proof -
    have "data G ! k = (\<Sum>x \<leftarrow> [0..<length Fs]. c ! x * data (Fs ! x) ! k)"
      using G(4) that assms(3) by (simp add: zeros_like_def)
    also have "\<dots> = (\<Sum>i < length Fs. c ! i * data (Fs ! i) ! k)"
      by (simp add: interv_sum_list_conv_sum_set_nat atLeast0LessThan)
    finally show ?thesis .
  qed
  moreover have "diis_extrapolate slv g scf_iter F Fs Rs = Inr G"
    using assms(1,2) G(1)
    by (simp add: diis_extrapolate_def diis_solve_path_def ebind_simps diis_fock_def)
  ultimately show ?thesis using G(2,3) by blast
qed

theorem diis_linear_combination_witness:
  "(2::nat) \<le> 2 \<and>
   pulay_solve exact_solve (\<lambda>i j. 7)
     [\<lparr>shape = (1, 2), data = [1, 0]\<rparr>, \<lparr>shape = (1, 2), data = [0, 1]\<rparr>]
     [\<lparr>shape = (1, 2), data = [1, 0]\<rparr>, \<lparr>shape = (1, 2), data = [0, 1]\<rparr>]
     = Inr [1 / 2, 1 / 2, 1 / 2] \<and>
   all_like \<lparr>shape = (1, 2), data = [0, 1]\<rparr>
     [\<lparr>shape = (1, 2), data = [1, 0]\<rparr>, \<lparr>shape = (1, 2), data = [0, 1]\<rparr>] \<and>
   (\<exists>G. diis_extrapolate exact_solve (\<lambda>i j. 7) 2 \<lparr>shape = (1, 2), data = [0, 1]\<rparr>
       [\<lparr>shape = (1, 2), data = [1, 0]\<rparr>, \<lparr>shape = (1, 2), data = [0, 1]\<rparr>]
       [\<lparr>shape = (1, 2), data = [1, 0]\<rparr>, \<lparr>shape = (1, 2), data = [0, 1]\<rparr>] = Inr G \<and>
      data G ! 0 = 1 / 2 * 1 + 1 / 2 * 0 \<and> data G ! 1 = 1 / 2 * 0 + 1 / 2 * 1)"
proof -
  let ?Fs = "[\<lparr>shape = (1, 2), data = [1, 0]\<rparr>, \<lparr>shape = (1, 2), data = [0, 1::real]\<rparr>]"
  let ?F = "\<lparr>shape = (1, 2), data = [0, 1::real]\<rparr>"
  let ?g = "\<lambda>(i::nat) (j::nat). 7::real"
  let ?c = "[1 / 2, 1 / 2, 1 / 2 :: real]"
  have two: "(2::nat) \<le> 2" by simp
  have ps: "pulay_solve exact_solve ?g ?Fs ?Fs = Inr ?c"
    by code_simp
  have lc: "length ?c = length ?Fs + 1" by simp
  have al: "all_like ?F ?Fs"
    by (simp add: all_like_def wf_array_def)
  obtain G where G: "diis_extrapolate exact_solve ?g 2 ?F ?Fs ?Fs = Inr G"
    "\<forall>k < length (data ?F). data G ! k = (\<Sum>i < length ?Fs. ?c ! i * data (?Fs ! i) ! k)"
    using diis_linear_combination [OF two ps lc al] by blast
  have "data G ! 0 = 1 / 2 * 1 + 1 / 2 * 0" "data G ! 1 = 1 / 2 * 0 + 1 / 2 * 1"
    using G(2) by (simp_all add: lessThan_Suc numeral_2_eq_2)
  then show ?thesis using two ps al G(1) by blast
qed

text \<open>
  C6, as the code has it. The claim that appending a pair of mismatched shapes fails
  does not hold: a trial vector of shape \<open>(1, 2)\<close> and a residual of shape \<open>(2, 1)\<close> are
  appended to a history of shape \<open>(1, 1)\<close> without any error, and a first iteration
  with such a pair completes with the pair stored.
\<close>

theorem mismatched_pair_is_stored_counterexample:
  "shape \<lparr>shape = (1, 2), data = [1, 0]\<rparr> \<noteq> shape \<lparr>shape = (2, 1), data = [1, 0]\<rparr> \<and>
   shape \<lparr>shape = (1, 1), data = [5]\<rparr> \<noteq> shape \<lparr>shape = (1, 2), data = [1, 0]\<rparr> \<and>
   append_pair
     \<lparr>D = \<lparr>shape = (1, 1), data = [5]\<rparr>, SCF_E = 0, E_old = 0,
        F_list = [\<lparr>shape = (1, 1), data = [5]\<rparr>],
        DIIS_RESID = [\<lparr>shape = (1, 1), data = [5]\<rparr>]\<rparr>
     \<lparr>shape = (1, 2), data = [1, 0]\<rparr> \<lparr>shape = (2, 1), data = [1, 0]\<rparr>
     = \<lparr>D = \<lparr>shape = (1, 1), data = [5]\<rparr>, SCF_E = 0, E_old = 0,
        F_list = [\<lparr>shape = (1, 1), data = [5]\<rparr>, \<lparr>shape = (1, 2), data = [1, 0]\<rparr>],
        DIIS_RESID = [\<lparr>shape = (1, 1), data = [5]\<rparr>, \<lparr>shape = (2, 1), data = [1, 0]\<rparr>]\<rparr> \<and>
   scf_body mis_env 1
     (initial_state \<lparr>shape = (1, 2), data = [1, 0]\<rparr>)
     = Inr (Continue,
         \<lparr>D = \<lparr>shape = (1, 2), data = [0, 1]\<rparr>, SCF_E = 1, E_old = 1,
            F_list = [\<lparr>shape = (1, 2), data = [1, 0]\<rparr>],
            DIIS_RESID = [\<lparr>shape = (2, 1), data = [1, 0]\<rparr>]\<rparr>)"
proof -
  have "scf_body mis_env 1
     (initial_state \<lparr>shape = (1, 2), data = [1, 0]\<rparr>)
     = Inr (Continue,
         \<lparr>D = \<lparr>shape = (1, 2), data = [0, 1]\<rparr>, SCF_E = 1, E_old = 1,
            F_list = [\<lparr>shape = (1, 2), data = [1, 0]\<rparr>],
            DIIS_RESID = [\<lparr>shape = (2, 1), data = [1, 0]\<rparr>]\<rparr>)"
    by code_simp
  then show ?thesis by (simp add: append_pair_def)
qed

text \<open>
  C6, amended. The two \<^verbatim>\<open>append\<close> statements check no shape and cannot fail: the
  pair is stored at the end of the two lists whatever the shapes; every pass of the loop
  body that completes has appended its Fock matrix and residual; and in the first
  iteration the only exception the body can raise is that of the diagonalisation.
\<close>

theorem append_checks_no_shape:
  "F_list (append_pair st F r) = F_list st @ [F] \<and>
   DIIS_RESID (append_pair st F r) = DIIS_RESID st @ [r] \<and>
   (\<forall>fl st'. scf_body env scf_iter st = Inr (fl, st') \<longrightarrow>
      F_list st' = F_list st @ [fock env (D st)] \<and>
      DIIS_RESID st' = DIIS_RESID st @ [resid env (fock env (D st)) (D st)]) \<and>
   (\<forall>e. scf_iter < 2 \<and> scf_body env scf_iter st = Inl e \<longrightarrow>
      new_density env (fock env (D st)) = Inl e)"
proof -
  have "new_density env (fock env (D st)) = Inl e"
    if "scf_iter < 2" "scf_body env scf_iter st = Inl e" for e
  proof (cases "scf_converged env st")
    case True
    then show ?thesis using that(2) by (simp add: scf_body_converged)
  next
    case False
    then show ?thesis
      using that
      by (auto simp: scf_body_not_converged diis_extrapolate_def ebind_def MAXITER_def
          split: sum.splits if_splits)
  qed
  then show ?thesis
    using scf_body_lists [of env scf_iter st] by (auto simp: append_pair_def)
qed

theorem append_checks_no_shape_witness:
  "(1::nat) < 2 \<and>
   scf_body (demo_env\<lparr>resid := (\<lambda>F D. \<lparr>shape = (2, 1), data = data F\<rparr>)\<rparr>) 1
     (initial_state \<lparr>shape = (1, 2), data = [1, 0]\<rparr>)
     = Inr (Continue,
         \<lparr>D = \<lparr>shape = (1, 2), data = [0, 1]\<rparr>, SCF_E = 1, E_old = 1,
            F_list = [\<lparr>shape = (1, 2), data = [1, 0]\<rparr>],
            DIIS_RESID = [\<lparr>shape = (2, 1), data = [1, 0]\<rparr>]\<rparr>) \<and>
   F_list \<lparr>D = \<lparr>shape = (1, 2), data = [0, 1]\<rparr>, SCF_E = 1, E_old = 1,
            F_list = [\<lparr>shape = (1, 2), data = [1, 0]\<rparr>],
            DIIS_RESID = [\<lparr>shape = (2, 1), data = [1, 0]\<rparr>]\<rparr>
     = F_list (initial_state \<lparr>shape = (1, 2), data = [1, 0]\<rparr>)
         @ [fock (demo_env\<lparr>resid := (\<lambda>F D. \<lparr>shape = (2, 1), data = data F\<rparr>)\<rparr>)
              (D (initial_state \<lparr>shape = (1, 2), data = [1, 0]\<rparr>))] \<and>
   scf_body (demo_env\<lparr>new_density := (\<lambda>F. Inl LinAlgError)\<rparr>) 1
     (initial_state \<lparr>shape = (1, 2), data = [1, 0]\<rparr>) = Inl LinAlgError"
proof -
  let ?env = "demo_env\<lparr>resid := (\<lambda>F D. \<lparr>shape = (2, 1), data = data F\<rparr>)\<rparr>"
  let ?env2 = "demo_env\<lparr>new_density := (\<lambda>F. Inl LinAlgError)\<rparr>"
  let ?st0 = "initial_state \<lparr>shape = (1, 2), data = [1, 0]\<rparr>"
  let ?st1 = "\<lparr>D = \<lparr>shape = (1, 2), data = [0, 1]\<rparr>, SCF_E = 1, E_old = 1,
      F_list = [\<lparr>shape = (1, 2), data = [1, 0]\<rparr>],
      DIIS_RESID = [\<lparr>shape = (2, 1), data = [1, 0::real]\<rparr>]\<rparr>"
  have run: "scf_body ?env 1 ?st0 = Inr (Continue, ?st1)"
    by code_simp
  have err: "scf_body ?env2 1 ?st0 = Inl LinAlgError"
    by code_simp
  have "F_list ?st1 = F_list ?st0 @ [fock ?env (D ?st0)]"
    using append_checks_no_shape [of ?st0 "D ?st0" "D ?st0" ?env 1] run by blast
  moreover have "new_density ?env2 (fock ?env2 (D ?st0)) = Inl LinAlgError"
    using append_checks_no_shape [of ?st0 "D ?st0" "D ?st0" ?env2 1] err by simp
  ultimately show ?thesis using run err by simp
qed

text \<open>
  C7. For every history (residuals of one shape, as many trial vectors as residuals) the
  matrix the nested loops build is symmetric: \<open>B[i][j] = B[j][i]\<close> for all indices of
  the bordered matrix, and each overlap entry is the inner product of residuals \<open>i\<close> and
  \<open>j\<close> taken in either order.
\<close>

theorem overlap_matrix_symmetric:
  assumes "same_shape Rs" and "length Fs = length Rs"
  shows "\<exists>B. build_B g Fs Rs = Inr B \<and>
           (\<forall>i < length B. \<forall>j < length B. B ! i ! j = B ! j ! i) \<and>
           (\<forall>i < length Rs. \<forall>j < length Rs.
              einsum_ij_ij (Rs ! i) (Rs ! j) = Inr (B ! i ! j) \<and>
              einsum_ij_ij (Rs ! j) (Rs ! i) = Inr (B ! i ! j))"
proof -
  have B: "build_B g Fs Rs = Inr (pulay_matrix Rs)"
    using assms by (rule build_B_eq)
  have "pulay_matrix Rs ! i ! j = pulay_matrix Rs ! j ! i"
    if "i < length (pulay_matrix Rs)" "j < length (pulay_matrix Rs)" for i j
    using that by (auto simp: length_pulay_matrix pulay_matrix_nth gram_sym)
  moreover have "einsum_ij_ij (Rs ! i) (Rs ! j) = Inr (pulay_matrix Rs ! i ! j) \<and>
                 einsum_ij_ij (Rs ! j) (Rs ! i) = Inr (pulay_matrix Rs ! i ! j)"
    if "i < length Rs" "j < length Rs" for i j
  proof -
    have "shape (Rs ! i) = shape (Rs ! j)"
      using assms(1) that by (simp add: same_shape_def)
    then show ?thesis
      using that gram_sym [of Rs i j]
      by (simp add: einsum_ij_ij_def pulay_matrix_nth gram_def)
  qed
  ultimately show ?thesis using B by blast
qed

theorem overlap_matrix_symmetric_witness:
  "same_shape [\<lparr>shape = (1, 2), data = [1, 2]\<rparr>, \<lparr>shape = (1, 2), data = [3, 4]\<rparr>] \<and>
   build_B (\<lambda>i j. 7) [\<lparr>shape = (1, 2), data = [1, 0]\<rparr>, \<lparr>shape = (1, 2), data = [0, 1]\<rparr>]
     [\<lparr>shape = (1, 2), data = [1, 2]\<rparr>, \<lparr>shape = (1, 2), data = [3, 4]\<rparr>]
     = Inr [[5, 11, - 1], [11, 25, - 1], [- 1, - 1, 0]]"
proof -
  let ?Rs = "[\<lparr>shape = (1, 2), data = [1, 2]\<rparr>, \<lparr>shape = (1, 2), data = [3, 4::real]\<rparr>]"
  let ?Fs = "[\<lparr>shape = (1, 2), data = [1, 0]\<rparr>, \<lparr>shape = (1, 2), data = [0, 1::real]\<rparr>]"
  have h: "same_shape ?Rs" by (simp add: same_shape_def)
  have l: "length ?Fs = length ?Rs" by simp
  obtain B where B: "build_B (\<lambda>i j. 7) ?Fs ?Rs = Inr B"
    using overlap_matrix_symmetric [OF h l] by blast
  have "build_B (\<lambda>i j. 7) ?Fs ?Rs = Inr [[5, 11, - 1], [11, 25, - 1], [- 1, - 1, 0]]"
    by code_simp
  then show ?thesis using h by simp
qed

text \<open>
  C8. In a run that starts from the empty lists, the two lists have the same length at
  the end of the loop over iterations \<open>1..k\<close>: \<open>k\<close> when all \<open>k\<close> passes completed, \<open>i\<close>
  when the loop broke in iteration \<open>i\<close>. After \<open>j \<le> k\<close> completed passes both lists
  have length \<open>j\<close> and are the first \<open>j\<close> entries of the later lists: pairs are kept
  in iteration order and never removed.
\<close>

theorem history_grows_one_pair_per_iteration:
  assumes "scf_for env [1..<k + 1] (initial_state D0) = Inr (ex, st')"
    and "scf_for env [1..<j + 1] (initial_state D0) = Inr (Exhausted, st_j)" and "j \<le> k"
  shows "length (F_list st') = length (DIIS_RESID st') \<and>
         length (F_list st') = (case ex of Exhausted \<Rightarrow> k | Broke i \<Rightarrow> i) \<and>
         length (F_list st_j) = j \<and> length (DIIS_RESID st_j) = j \<and>
         F_list st_j = take j (F_list st') \<and> DIIS_RESID st_j = take j (DIIS_RESID st')"
proof -
  have k: "length (F_list st') = (case ex of Exhausted \<Rightarrow> k | Broke i \<Rightarrow> i)"
    "length (DIIS_RESID st') = (case ex of Exhausted \<Rightarrow> k | Broke i \<Rightarrow> i)"
    using scf_for_upt_length(1,2) [of env 1 k "initial_state D0" ex st'] assms(1)
    by (simp_all add: initial_lists split: loop_exit.splits)
  have j: "length (F_list st_j) = j" "length (DIIS_RESID st_j) = j"
    using scf_for_upt_length(1,2) [of env 1 j "initial_state D0" Exhausted st_j] assms(2)
    by (simp_all add: initial_lists)
  have "[1..<j + 1 + (k - j)] = [1..<j + 1] @ [j + 1..<j + 1 + (k - j)]"
    by (rule upt_add_eq_append) simp
  moreover have "j + 1 + (k - j) = k + 1"
    using assms(3) by simp
  ultimately have split: "[1..<k + 1] = [1..<j + 1] @ [j + 1..<j + 1 + (k - j)]"
    by (simp only:)
  have rest: "scf_for env [j + 1..<j + 1 + (k - j)] st_j = Inr (ex, st')"
    using assms(1,2) unfolding split scf_for_append by simp
  have "take (length (F_list st_j)) (F_list st') = F_list st_j"
    "take (length (DIIS_RESID st_j)) (DIIS_RESID st') = DIIS_RESID st_j"
    using scf_for_upt_length(3,4) [OF rest] by simp_all
  then show ?thesis using k j by simp
qed

theorem history_grows_one_pair_per_iteration_witness:
  "(1::nat) \<le> 2 \<and>
   (\<exists>st' st_j.
      scf_for demo_env [1..<2 + 1] (initial_state \<lparr>shape = (1, 2), data = [1, 0]\<rparr>)
        = Inr (Exhausted, st') \<and>
      scf_for demo_env [1..<1 + 1] (initial_state \<lparr>shape = (1, 2), data = [1, 0]\<rparr>)
        = Inr (Exhausted, st_j) \<and>
      length (F_list st') = 2 \<and> length (DIIS_RESID st') = 2 \<and>
      F_list st_j = take 1 (F_list st') \<and> DIIS_RESID st_j = take 1 (DIIS_RESID st'))"
proof -
  let ?st0 = "initial_state \<lparr>shape = (1, 2), data = [1, 0]\<rparr>"
  let ?st2 = "\<lparr>D = \<lparr>shape = (1, 2), data = [1 / 2, 1 / 2]\<rparr>, SCF_E = 0, E_old = 0,
      F_list = [\<lparr>shape = (1, 2), data = [1, 0]\<rparr>, \<lparr>shape = (1, 2), data = [0, 1]\<rparr>],
      DIIS_RESID = [\<lparr>shape = (1, 2), data = [1, 0]\<rparr>, \<lparr>shape = (1, 2), data = [0, 1]\<rparr>]\<rparr>"
  let ?st1 = "\<lparr>D = \<lparr>shape = (1, 2), data = [0, 1]\<rparr>, SCF_E = 1, E_old = 1,
      F_list = [\<lparr>shape = (1, 2), data = [1, 0]\<rparr>],
      DIIS_RESID = [\<lparr>shape = (1, 2), data = [1, 0]\<rparr>]\<rparr>"
  have r2: "scf_for demo_env [1..<2 + 1] ?st0 = Inr (Exhausted, ?st2)"
    by code_simp
  have r1: "scf_for demo_env [1..<1 + 1] ?st0 = Inr (Exhausted, ?st1)"
    by code_simp
  have le: "(1::nat) \<le> 2" by simp
  from history_grows_one_pair_per_iteration [OF r2 r1 le]
  have "length (F_list ?st2) = 2 \<and> length (DIIS_RESID ?st2) = 2 \<and>
      F_list ?st1 = take 1 (F_list ?st2) \<and> DIIS_RESID ?st1 = take 1 (DIIS_RESID ?st2)"
    by simp
  then show ?thesis using r2 r1 le by blast
qed

text \<open>
  C9. For a history of one pair, the block under \<^verbatim>\<open>if scf_iter >= 2\<close> (were it run)
  builds the system \<open>[[\<langle>r, r\<rangle>, -1], [-1, 0]]\<close>, which is never singular and whose every
  solution has first entry 1; so with a solver that meets the contract the solve
  returns the short-circuit coefficient followed by the multiplier, and the solve path
  returns the sole trial vector: the same as the short-circuit with coefficient
  \<open>[1.0]\<close> and the same as the path that skips the extrapolation.
\<close>

theorem single_entry_solve_path:
  assumes "solve_contract slv"
  shows "\<exists>B. build_B g [T] [r] = Inr B \<and>
           B = [[dot (data r) (data r), - 1], [- 1, 0]] \<and> \<not> singular B \<and>
           (\<forall>x. length x = 2 \<and> mat_vec B x = build_rhs [T] \<longrightarrow> x ! 0 = 1) \<and>
           (\<exists>l. pulay_solve slv g [T] [r] = Inr (short_circuit_coeff @ [l])) \<and>
           diis_solve_path slv g T [T] [r] = Inr T \<and>
           diis_solve_path slv g T [T] [r] = short_circuit_step T [T] \<and>
           diis_solve_path slv g T [T] [r] = diis_extrapolate slv g 1 T [T] [r]"
proof -
  let ?B = "[[dot (data r) (data r), - 1], [- 1, 0]]"
  have B: "build_B g [T] [r] = Inr ?B"
    using build_B_eq [of "[r]" "[T]" g] by (simp add: same_shape_def pulay_matrix_single)
  have ns: "\<not> singular ?B" by (rule single_system_nonsingular)
  have rhs: "build_rhs [T] = [0, - 1]" by (simp add: build_rhs_eq)
  have first: "\<forall>x. length x = 2 \<and> mat_vec ?B x = build_rhs [T] \<longrightarrow> x ! 0 = 1"
  proof (intro allI impI)
    fix x assume "length x = 2 \<and> mat_vec ?B x = build_rhs [T]"
    then have "x = [1, dot (data r) (data r) * 1 - 0]"
      by (intro single_system_solution) (simp_all add: rhs)
    then show "x ! 0 = 1" by simp
  qed
  have sq: "square ?B" "length (build_rhs [T]) = length ?B"
    by (simp_all add: square_def rhs)
  obtain x where x: "slv ?B (build_rhs [T]) = Inr x" "length x = length ?B"
    "mat_vec ?B x = build_rhs [T]"
    using solve_contract_nonsingular [OF assms sq ns] by blast
  have "x = [1, dot (data r) (data r) * 1 - 0]"
    using x(2,3) by (intro single_system_solution) (simp_all add: rhs)
  then have ps: "pulay_solve slv g [T] [r] = Inr [1, dot (data r) (data r)]"
    using B x(1) by (simp add: pulay_solve_def ebind_simps)
  then have sp: "diis_solve_path slv g T [T] [r] = Inr T"
    by (simp add: diis_solve_path_def ebind_simps diis_fock_single)
  have "diis_extrapolate slv g 1 T [T] [r] = Inr T"
    by (simp add: diis_extrapolate_def)
  then show ?thesis
    using B ns first ps sp by (simp add: short_circuit_single short_circuit_coeff_def)
qed

theorem single_entry_solve_path_witness:
  "solve_contract exact_solve \<and>
   pulay_solve exact_solve (\<lambda>i j. 7) [\<lparr>shape = (1, 2), data = [3, 4]\<rparr>]
     [\<lparr>shape = (1, 2), data = [1, 2]\<rparr>] = Inr [1, 5] \<and>
   diis_solve_path exact_solve (\<lambda>i j. 7) \<lparr>shape = (1, 2), data = [3, 4]\<rparr>
     [\<lparr>shape = (1, 2), data = [3, 4]\<rparr>] [\<lparr>shape = (1, 2), data = [1, 2]\<rparr>]
     = Inr \<lparr>shape = (1, 2), data = [3, 4]\<rparr>"
proof -
  have "pulay_solve exact_solve (\<lambda>i j. 7) [\<lparr>shape = (1, 2), data = [3, 4]\<rparr>]
     [\<lparr>shape = (1, 2), data = [1, 2]\<rparr>] = Inr [1, 5]"
    by code_simp
  then show ?thesis
    using single_entry_solve_path [OF exact_solve_contract, of "\<lambda>i j. 7"
        "\<lparr>shape = (1, 2), data = [3, 4]\<rparr>" "\<lparr>shape = (1, 2), data = [1, 2]\<rparr>"]
      exact_solve_contract by blast
qed

text \<open>
  C10, as the code has it. The claim that every run either breaks on convergence or
  raises on reaching iteration 40 fails: with two identical residuals the first pass
  completes without converging and the second ends the run with the
  \<^verbatim>\<open>LinAlgError\<close> of the solver, which is neither.
\<close>

theorem run_ends_in_second_iteration_counterexample:
  "scf_for dup_env [1..<2] (initial_state \<lparr>shape = (1, 1), data = [0]\<rparr>)
     = Inr (Exhausted,
         \<lparr>D = \<lparr>shape = (1, 1), data = [1]\<rparr>, SCF_E = 0, E_old = 0,
            F_list = [\<lparr>shape = (1, 1), data = [0]\<rparr>],
            DIIS_RESID = [\<lparr>shape = (1, 1), data = [1]\<rparr>]\<rparr>) \<and>
   \<not> scf_converged dup_env
       \<lparr>D = \<lparr>shape = (1, 1), data = [1]\<rparr>, SCF_E = 0, E_old = 0,
          F_list = [\<lparr>shape = (1, 1), data = [0]\<rparr>],
          DIIS_RESID = [\<lparr>shape = (1, 1), data = [1]\<rparr>]\<rparr> \<and>
   scf_body dup_env 2
       \<lparr>D = \<lparr>shape = (1, 1), data = [1]\<rparr>, SCF_E = 0, E_old = 0,
          F_list = [\<lparr>shape = (1, 1), data = [0]\<rparr>],
          DIIS_RESID = [\<lparr>shape = (1, 1), data = [1]\<rparr>]\<rparr> = Inl LinAlgError \<and>
   scf_loop dup_env (initial_state \<lparr>shape = (1, 1), data = [0]\<rparr>) = Inl LinAlgError \<and>
   scf_loop dup_env (initial_state \<lparr>shape = (1, 1), data = [0]\<rparr>) \<noteq> Inl MaxIterExceeded"
proof -
  let ?s1 = "\<lparr>D = \<lparr>shape = (1, 1), data = [1]\<rparr>, SCF_E = 0, E_old = 0,
      F_list = [\<lparr>shape = (1, 1), data = [0]\<rparr>],
      DIIS_RESID = [\<lparr>shape = (1, 1), data = [1::real]\<rparr>]\<rparr>"
  have a: "scf_for dup_env [1..<2] (initial_state \<lparr>shape = (1, 1), data = [0]\<rparr>)
     = Inr (Exhausted, ?s1)"
    by code_simp
  have b: "\<not> scf_converged dup_env ?s1"
    by code_simp
  have c: "scf_body dup_env 2 ?s1 = Inl LinAlgError"
    by code_simp
  have d: "scf_loop dup_env (initial_state \<lparr>shape = (1, 1), data = [0]\<rparr>) = Inl LinAlgError"
    by code_simp
  show ?thesis using a b c d by simp
qed

text \<open>
  C10, amended. The loop runs over the iterations 1 to \<^verbatim>\<open>MAXITER\<close> = 40 and, NumPy
  raising only its own exceptions, every run ends in exactly one of three ways, after
  the passes before it have all completed without converging: the convergence test holds
  in an iteration \<open>k \<le> 40\<close> and the loop breaks there; or iteration 40 has not
  converged, its extrapolation and diagonalisation succeed, and the loop raises the
  \<^verbatim>\<open>Maximum number of SCF iterations exceeded\<close> exception; or the extrapolation or
  the diagonalisation of an iteration \<open>k \<le> 40\<close> that has not converged raises, and the
  run ends with that exception. The test comes first in the body, so a converged
  iteration breaks before any extrapolation; no run returns an unconverged energy.
\<close>

theorem scf_loop_outcomes:
  assumes "numpy_errors env"
  shows "MAXITER = 40 \<and>
    ((\<exists>k s st'. 1 \<le> k \<and> k \<le> MAXITER \<and>
        scf_for env [1..<k] st = Inr (Exhausted, s) \<and> scf_converged env s \<and>
        scf_body env k s = Inr (Break, st') \<and> scf_loop env st = Inr (Broke k, st')) \<or>
     (\<exists>s F' D'. scf_for env [1..<MAXITER] st = Inr (Exhausted, s) \<and>
        \<not> scf_converged env s \<and> pass_extrapolation env MAXITER s = Inr F' \<and>
        new_density env F' = Inr D' \<and> scf_loop env st = Inl MaxIterExceeded) \<or>
     (\<exists>k s e. 1 \<le> k \<and> k \<le> MAXITER \<and>
        scf_for env [1..<k] st = Inr (Exhausted, s) \<and> \<not> scf_converged env s \<and>
        e \<noteq> MaxIterExceeded \<and>
        (pass_extrapolation env k s = Inl e \<or>
         (\<exists>F'. pass_extrapolation env k s = Inr F' \<and> new_density env F' = Inl e)) \<and>
        scf_loop env st = Inl e)) \<and>
    (\<forall>i s. scf_converged env s \<longrightarrow> (\<exists>s'. scf_body env i s = Inr (Break, s')))"
proof -
  let ?r = "scf_loop env st"
  have range: "[1..<MAXITER + 1] \<noteq> []" "last [1..<MAXITER + 1] = MAXITER"
    by (simp_all add: MAXITER_def)
  have ne: "\<forall>s. ?r \<noteq> Inr (Exhausted, s)"
    unfolding scf_loop_def using scf_for_not_exhausted [OF range] by blast
  have "scf_for env [1..<MAXITER + 1] st = ?r"
    by (simp add: scf_loop_def)
  from scf_for_stops [OF this ne] obtain pre k post s where
    split: "[1..<MAXITER + 1] = pre @ k # post" and
    pre: "scf_for env pre st = Inr (Exhausted, s)" and
    body: "case scf_body env k s of
        Inl e \<Rightarrow> ?r = Inl e
      | Inr (Break, s') \<Rightarrow> ?r = Inr (Broke k, s')
      | Inr (Continue, s') \<Rightarrow> False"
    by blast
  from upt_split_pre [OF split] have k: "pre = [1..<k]" "1 \<le> k" "k \<le> MAXITER"
    by simp_all
  have head: "scf_for env [1..<k] st = Inr (Exhausted, s)"
    using pre k(1) by simp
  have outcome:
    "(\<exists>k s st'. 1 \<le> k \<and> k \<le> MAXITER \<and>
        scf_for env [1..<k] st = Inr (Exhausted, s) \<and> scf_converged env s \<and>
        scf_body env k s = Inr (Break, st') \<and> ?r = Inr (Broke k, st')) \<or>
     (\<exists>s F' D'. scf_for env [1..<MAXITER] st = Inr (Exhausted, s) \<and>
        \<not> scf_converged env s \<and> pass_extrapolation env MAXITER s = Inr F' \<and>
        new_density env F' = Inr D' \<and> ?r = Inl MaxIterExceeded) \<or>
     (\<exists>k s e. 1 \<le> k \<and> k \<le> MAXITER \<and>
        scf_for env [1..<k] st = Inr (Exhausted, s) \<and> \<not> scf_converged env s \<and>
        e \<noteq> MaxIterExceeded \<and>
        (pass_extrapolation env k s = Inl e \<or>
         (\<exists>F'. pass_extrapolation env k s = Inr F' \<and> new_density env F' = Inl e)) \<and>
        ?r = Inl e)"
  proof (cases "scf_converged env s")
    case True
    then obtain s' where b: "scf_body env k s = Inr (Break, s')"
      by (simp add: scf_body_converged)
    then have "?r = Inr (Broke k, s')" using body by simp
    then show ?thesis using k(2,3) head True b by blast
  next
    case False
    show ?thesis
    proof (cases "pass_extrapolation env k s")
      case (Inl e)
      then have "scf_body env k s = Inl e"
        using False by (simp add: scf_body_outcomes)
      then have "?r = Inl e" using body by simp
      moreover have "e \<noteq> MaxIterExceeded"
        using pass_extrapolation_error [OF assms Inl] .
      ultimately show ?thesis using k(2,3) head False Inl by blast
    next
      case (Inr F')
      show ?thesis
      proof (cases "new_density env F'")
        case (Inl e)
        then have "scf_body env k s = Inl e"
          using False Inr by (simp add: scf_body_outcomes)
        then have "?r = Inl e" using body by simp
        moreover have "e \<noteq> MaxIterExceeded"
          using assms Inl by (auto simp: numpy_errors_def)
        ultimately show ?thesis using k(2,3) head False Inr Inl by blast
      next
        case D': (Inr D')
        have km: "k = MAXITER"
        proof (rule ccontr)
          assume "k \<noteq> MAXITER"
          then have "\<exists>s'. scf_body env k s = Inr (Continue, s')"
            using False Inr D' by (simp add: scf_body_outcomes)
          then show False using body by auto
        qed
        then have "scf_body env k s = Inl MaxIterExceeded"
          using False Inr D' by (simp add: scf_body_outcomes)
        then have "?r = Inl MaxIterExceeded" using body by simp
        then show ?thesis using head False Inr D' km by blast
      qed
    qed
  qed
  have "\<forall>i s. scf_converged env s \<longrightarrow> (\<exists>s'. scf_body env i s = Inr (Break, s'))"
    by (simp add: scf_body_converged)
  moreover have "MAXITER = 40" by (simp add: MAXITER_def)
  ultimately show ?thesis using outcome by blast
qed

theorem scf_loop_outcomes_witness:
  "numpy_errors demo_env \<and> numpy_errors dup_env \<and>
   scf_loop demo_env (initial_state \<lparr>shape = (1, 2), data = [0, 0]\<rparr>) =
     Inr (Broke 1,
       \<lparr>D = \<lparr>shape = (1, 2), data = [0, 0]\<rparr>, SCF_E = 0, E_old = 0,
          F_list = [\<lparr>shape = (1, 2), data = [0, 0]\<rparr>],
          DIIS_RESID = [\<lparr>shape = (1, 2), data = [0, 0]\<rparr>]\<rparr>) \<and>
   (\<exists>s. scf_for demo_env [1..<1] (initial_state \<lparr>shape = (1, 2), data = [0, 0]\<rparr>)
          = Inr (Exhausted, s) \<and> scf_converged demo_env s) \<and>
   scf_loop dup_env (initial_state \<lparr>shape = (1, 1), data = [0]\<rparr>) = Inl LinAlgError \<and>
   (\<exists>k s. 1 \<le> k \<and> k \<le> MAXITER \<and>
      scf_for dup_env [1..<k] (initial_state \<lparr>shape = (1, 1), data = [0]\<rparr>)
        = Inr (Exhausted, s) \<and> \<not> scf_converged dup_env s \<and>
      (pass_extrapolation dup_env k s = Inl LinAlgError \<or>
       (\<exists>F'. pass_extrapolation dup_env k s = Inr F' \<and>
          new_density dup_env F' = Inl LinAlgError)))"
proof -
  let ?s0 = "initial_state \<lparr>shape = (1, 2), data = [0, 0]\<rparr>"
  let ?s1 = "initial_state \<lparr>shape = (1, 1), data = [0]\<rparr>"
  let ?st = "\<lparr>D = \<lparr>shape = (1, 2), data = [0, 0]\<rparr>, SCF_E = 0, E_old = 0,
      F_list = [\<lparr>shape = (1, 2), data = [0, 0]\<rparr>],
      DIIS_RESID = [\<lparr>shape = (1, 2), data = [0, 0::real]\<rparr>]\<rparr>"
  have ne: "numpy_errors demo_env"
    using exact_solve_error by (fastforce simp: numpy_errors_def demo_env_def)
  have ne': "numpy_errors dup_env"
    using exact_solve_error by (fastforce simp: numpy_errors_def dup_env_def)
  have run0: "scf_loop demo_env ?s0 = Inr (Broke 1, ?st)"
    by code_simp
  have run1: "scf_loop dup_env ?s1 = Inl LinAlgError"
    by code_simp
  have "\<exists>k s. 1 \<le> k \<and>
      scf_for demo_env [1..<k] ?s0 = Inr (Exhausted, s) \<and> scf_converged demo_env s \<and>
      Broke k = Broke 1"
    using scf_loop_outcomes [OF ne, of ?s0] run0 by auto
  then have c0: "\<exists>s. scf_for demo_env [1..<1] ?s0 = Inr (Exhausted, s) \<and> scf_converged demo_env s"
    by auto
  have c1: "\<exists>k s. 1 \<le> k \<and> k \<le> MAXITER \<and>
      scf_for dup_env [1..<k] ?s1 = Inr (Exhausted, s) \<and> \<not> scf_converged dup_env s \<and>
      (pass_extrapolation dup_env k s = Inl LinAlgError \<or>
       (\<exists>F'. pass_extrapolation dup_env k s = Inr F' \<and>
          new_density dup_env F' = Inl LinAlgError))"
    using scf_loop_outcomes [OF ne', of ?s1] run1 by auto
  show ?thesis using ne ne' run0 run1 c0 c1 by blast
qed

end
